theory Spec2Isabelle
  imports Complex_Main "HOL-Library.Sublist"
begin

chapter \<open>The model\<close>

section \<open>JavaScript values\<close>

text \<open>
  The sources are JavaScript: a Node module (\<^verbatim>\<open>_concurrency.js\<close>), the OAuth client of
  \<^verbatim>\<open>projects-suiteql.js\<close> and a SuiteScript 2.1 RESTlet. The fragment of the language
  the embedded functions rely on is modelled first: primitive values, truthiness, the
  conversion of a value to a string, the \<^verbatim>\<open>||\<close> operator and property lookup on an
  object literal, which falls through to \<^verbatim>\<open>Object.prototype\<close>.

  \<open>Inherited k\<close> stands for the value found under the key \<open>k\<close> of \<^verbatim>\<open>Object.prototype\<close>
  (a built-in function, or the prototype object itself for \<^verbatim>\<open>__proto__\<close>); all of them
  are truthy. Numbers are integers here: the values that reach the modelled functions are
  identifiers, counters and millisecond timestamps.
\<close>

datatype jsval =
    Undefined
  | Null
  | Bool bool
  | Num int
  | Str string
  | Inherited string

fun truthy :: "jsval \<Rightarrow> bool" where
  "truthy Undefined = False"
| "truthy Null = False"
| "truthy (Bool b) = b"
| "truthy (Num n) = (n \<noteq> 0)"
| "truthy (Str s) = (s \<noteq> [])"
| "truthy (Inherited k) = True"

definition js_or :: "jsval \<Rightarrow> jsval \<Rightarrow> jsval" where
  \<comment> \<open>\<^verbatim>\<open>a || b\<close>\<close>
  "js_or a b = (if truthy a then a else b)"

subsection \<open>Numbers printed in decimal\<close>

definition digit_char :: "nat \<Rightarrow> char" where
  "digit_char d = ''0123456789'' ! (d mod 10)"

function show_nat :: "nat \<Rightarrow> string" where
  "show_nat n = (if n < 10 then [digit_char n] else show_nat (n div 10) @ [digit_char (n mod 10)])"
  by pat_completeness auto

termination
  by (relation "measure id") auto

declare show_nat.simps [simp del]

definition show_int :: "int \<Rightarrow> string" where
  "show_int i = (if i < 0 then CHR ''-'' # show_nat (nat (- i)) else show_nat (nat i))"

subsection \<open>Strings of values, and object literals\<close>

text \<open>
  \<open>js_to_string\<close> is the conversion \<^verbatim>\<open>ToString\<close>, applied to a value used as a
  property key and to a value substituted in a template literal.
\<close>

fun js_to_string :: "jsval \<Rightarrow> string" where
  "js_to_string Undefined = ''undefined''"
| "js_to_string Null = ''null''"
| "js_to_string (Bool b) = (if b then ''true'' else ''false'')"
| "js_to_string (Num n) = show_int n"
| "js_to_string (Str s) = s"
| "js_to_string (Inherited k) =
     (if k = ''constructor'' then ''function Object() { [native code] }''
      else if k = ''__proto__'' then ''[object Object]''
      else ''function '' @ k @ ''() { [native code] }'')"

definition object_prototype_keys :: "string list" where
  \<comment> \<open>the properties every object literal inherits from \<^verbatim>\<open>Object.prototype\<close>\<close>
  "object_prototype_keys =
     [''constructor'', ''hasOwnProperty'', ''isPrototypeOf'', ''propertyIsEnumerable'',
      ''toLocaleString'', ''toString'', ''valueOf'', ''__proto__'',
      ''__defineGetter__'', ''__defineSetter__'', ''__lookupGetter__'', ''__lookupSetter__'']"

definition get_property :: "(string \<times> jsval) list \<Rightarrow> jsval \<Rightarrow> jsval" where
  \<comment> \<open>\<^verbatim>\<open>obj[key]\<close> for an object literal with the given own properties\<close>
  "get_property own key =
     (let k = js_to_string key in
      case map_of own k of
        Some v \<Rightarrow> v
      | None \<Rightarrow> if k \<in> set object_prototype_keys then Inherited k else Undefined)"

section \<open>The RESTlet: status mapping\<close>

text \<open>
  \<^verbatim>\<open>
  function mapTaskStatus(frontendStatus) {
    const statusMap = {
      'Not Started': 'NOTSTART', 'In Progress': 'PROGRESS',
      'Completed': 'COMPLETE', 'On Hold': 'ONHOLD'
    };
    return statusMap[frontendStatus] || 'NOTSTART';
  }
  \<close>
\<close>

definition statusMap :: "(string \<times> jsval) list" where
  "statusMap =
     [(''Not Started'', Str ''NOTSTART''),
      (''In Progress'', Str ''PROGRESS''),
      (''Completed'', Str ''COMPLETE''),
      (''On Hold'', Str ''ONHOLD'')]"

definition mapTaskStatus :: "jsval \<Rightarrow> jsval" where
  "mapTaskStatus frontendStatus = js_or (get_property statusMap frontendStatus) (Str ''NOTSTART'')"

definition netsuite_status_codes :: "jsval set" where
  "netsuite_status_codes = {Str ''NOTSTART'', Str ''PROGRESS'', Str ''COMPLETE'', Str ''ONHOLD''}"

definition frontend_labels :: "string set" where
  "frontend_labels = {''Not Started'', ''In Progress'', ''Completed'', ''On Hold''}"

section \<open>The request executor\<close>

text \<open>
  \<^verbatim>\<open>_concurrency.js\<close>. A request function is an asynchronous JavaScript function of no
  arguments; every invocation settles as a resolved value or as a thrown one. It is modelled
  by the sequence of its settlements: \<open>requestFn k\<close> is how the invocation number \<open>k\<close>
  (from 0) settles. Every theorem below quantifies over all such sequences, so it covers
  whatever the function does and however the invocations of several operations interleave.
  An invocation that never settles is outside the model.

  The limiter \<^verbatim>\<open>p-limit\<close> only decides when the body starts; the wait
  \<^verbatim>\<open>sleep(getRetryDelay(attempt))\<close> and the \<^verbatim>\<open>console.warn\<close> before a retry change
  neither the result nor the counters and are left out of the loop; \<^verbatim>\<open>getRetryDelay\<close>
  is modelled on its own below.
\<close>

subsection \<open>Configuration and counters\<close>

definition CONFIG_maxRetries :: int where
  "CONFIG_maxRetries = 3"

record stats =
  totalRequests :: int
  successfulRequests :: int
  failedRequests :: int
  retriedRequests :: int
  queuedRequests :: int
  activeRequests :: int

subsection \<open>Errors and results of a request\<close>

text \<open>
  What the executor reads of a thrown value: \<^verbatim>\<open>error.message\<close> (\<open>None\<close> when undefined, as
  for a thrown primitive), \<^verbatim>\<open>error.code\<close>, and \<^verbatim>\<open>error.response\<close>: \<open>None\<close> when it is
  falsy, \<open>Some st\<close> for a response object whose \<^verbatim>\<open>status\<close> is \<open>st\<close>. Reading a property
  of a thrown \<^verbatim>\<open>null\<close> or \<^verbatim>\<open>undefined\<close> raises a TypeError; its message is the engine's
  (V8's wording for \<^verbatim>\<open>undefined\<close> is used).
\<close>

record js_error =
  err_message :: "string option"
  err_code :: jsval
  err_response :: "jsval option"

datatype thrown = ThrownNullish | ThrownError js_error

definition new_Error :: "string \<Rightarrow> js_error" where
  "new_Error msg = \<lparr>err_message = Some msg, err_code = Undefined, err_response = None\<rparr>"

definition TypeError_reading :: "string \<Rightarrow> string \<Rightarrow> js_error" where
  "TypeError_reading what prop =
     new_Error (''Cannot read properties of '' @ what @ '' (reading '' @ [CHR 0x27] @ prop @ [CHR 0x27] @ '')'')"

text \<open>
  A resolved value: its payload, and \<^verbatim>\<open>result.error.code\<close> when \<^verbatim>\<open>result\<close> and
  \<^verbatim>\<open>result.error\<close> are truthy and the code is a string (\<open>None\<close> otherwise).
\<close>

record 'a request_result =
  res_data :: 'a
  res_error_code :: "string option"

datatype 'a settlement = Resolves "'a request_result" | Rejects thrown

fun str_includes :: "string \<Rightarrow> string \<Rightarrow> bool" where
  "str_includes [] needle = (needle = [])"
| "str_includes (c # cs) needle = (prefix needle (c # cs) \<or> str_includes cs needle)"

text \<open>
  \<^verbatim>\<open>
  function isRetryableError(error, response) {
    const retryableStatuses = [429, 500, 502, 503, 504];
    if (response && retryableStatuses.includes(response.status)) return true;
    if (error.code && ['ECONNRESET', 'ETIMEDOUT', 'ENOTFOUND'].includes(error.code)) return true;
    if (error.message && error.message.includes('SSS_REQUEST_LIMIT_EXCEEDED')) return true;
    return false;
  }
  \<close>
\<close>

definition retryableStatuses :: "jsval list" where
  "retryableStatuses = [Num 429, Num 500, Num 502, Num 503, Num 504]"

definition isRetryableError :: "js_error \<Rightarrow> jsval option \<Rightarrow> bool" where
  "isRetryableError error response =
     (if (case response of None \<Rightarrow> False | Some st \<Rightarrow> st \<in> set retryableStatuses) then True
      else if truthy (err_code error)
              \<and> err_code error \<in> set [Str ''ECONNRESET'', Str ''ETIMEDOUT'', Str ''ENOTFOUND''] then True
      else if (case err_message error of
                 None \<Rightarrow> False
               | Some m \<Rightarrow> m \<noteq> [] \<and> str_includes m ''SSS_REQUEST_LIMIT_EXCEEDED'') then True
      else False)"

definition message_text :: "js_error \<Rightarrow> string" where
  \<comment> \<open>\<^verbatim>\<open>${lastError.message}\<close> in a template literal\<close>
  "message_text e = (case err_message e of None \<Rightarrow> ''undefined'' | Some m \<Rightarrow> m)"

subsection \<open>One attempt, and the retry loop\<close>

text \<open>
  The body of the \<^verbatim>\<open>try\<close>: the awaited call, and the check for a rate limit reported
  inside a resolved value, which throws \<^verbatim>\<open>new Error('SSS_REQUEST_LIMIT_EXCEEDED')\<close> into
  the \<^verbatim>\<open>catch\<close> below it.
\<close>

definition try_request :: "'a settlement \<Rightarrow> thrown + 'a request_result" where
  "try_request s =
     (case s of
        Rejects t \<Rightarrow> Inl t
      | Resolves result \<Rightarrow>
          if res_error_code result = Some ''SSS_REQUEST_LIMIT_EXCEEDED''
          then Inl (ThrownError (new_Error ''SSS_REQUEST_LIMIT_EXCEEDED''))
          else Inr result)"

text \<open>
  \<^verbatim>\<open>
  for (let attempt = 0; attempt <= maxRetries; attempt++) {
    try {
      const result = await requestFn();
      if (result && result.error && result.error.code === 'SSS_REQUEST_LIMIT_EXCEEDED')
        throw new Error('SSS_REQUEST_LIMIT_EXCEEDED');
      stats.successfulRequests++; stats.activeRequests--;
      if (attempt > 0) stats.retriedRequests++;
      return result;
    } catch (error) {
      lastError = error; lastResponse = error.response;
      if (attempt < maxRetries && isRetryableError(error, lastResponse)) {
        await sleep(getRetryDelay(attempt)); continue;
      }
      break;
    }
  }
  \<close>
  The loop leaves by returning the result, by \<^verbatim>\<open>break\<close> (or by its condition) with
  \<^verbatim>\<open>lastError\<close>, or by the TypeError that \<^verbatim>\<open>error.response\<close> raises inside the
  \<^verbatim>\<open>catch\<close> when the thrown value is \<^verbatim>\<open>null\<close> or \<^verbatim>\<open>undefined\<close>. The second component
  of the result counts the invocations of \<^verbatim>\<open>requestFn\<close> made so far.
\<close>

datatype 'a loop_exit =
    LoopReturn "'a request_result"
  | LoopBreak "js_error option"
  | LoopEscape thrown

function attempt_loop ::
  "(nat \<Rightarrow> 'a settlement) \<Rightarrow> int \<Rightarrow> int \<Rightarrow> js_error option \<Rightarrow> nat \<Rightarrow> stats
     \<Rightarrow> 'a loop_exit \<times> nat \<times> stats" where
  "attempt_loop requestFn maxRetries attempt lastError calls st =
     (if attempt \<le> maxRetries then
        (case try_request (requestFn calls) of
           Inr result \<Rightarrow>
             (LoopReturn result, Suc calls,
              st\<lparr>successfulRequests := successfulRequests st + 1,
                 activeRequests := activeRequests st - 1,
                 retriedRequests := (if attempt > 0 then retriedRequests st + 1 else retriedRequests st)\<rparr>)
         | Inl ThrownNullish \<Rightarrow>
             (LoopEscape (ThrownError (TypeError_reading ''undefined'' ''response'')), Suc calls, st)
         | Inl (ThrownError error) \<Rightarrow>
             if attempt < maxRetries \<and> isRetryableError error (err_response error)
             then attempt_loop requestFn maxRetries (attempt + 1) (Some error) (Suc calls) st
             else (LoopBreak (Some error), Suc calls, st))
      else (LoopBreak lastError, calls, st))"
  by pat_completeness auto

termination
  by (relation "measure (\<lambda>(requestFn, maxRetries, attempt, lastError, calls, st). nat (maxRetries + 1 - attempt))") auto

declare attempt_loop.simps [simp del]

text \<open>
  \<^verbatim>\<open>
  export async function executeWithConcurrencyControl(requestFn, options = {}) {
    const { priority = 'normal', maxRetries = CONFIG.maxRetries, metadata = {} } = options;
    stats.totalRequests++; stats.queuedRequests++;
    return limit(async () => {
      stats.queuedRequests--; stats.activeRequests++;
      ... the loop ...
      stats.failedRequests++; stats.activeRequests--;
      throw new Error(`Request failed after ${maxRetries + 1} attempts: ${lastError.message}`);
    });
  }
  \<close>
  \<^verbatim>\<open>priority\<close> is not used by the source and \<^verbatim>\<open>metadata\<close> only reaches the log.
\<close>

record exec_options =
  opt_maxRetries :: "int option"

definition max_retries_of :: "exec_options \<Rightarrow> int" where
  "max_retries_of options = (case opt_maxRetries options of None \<Rightarrow> CONFIG_maxRetries | Some m \<Rightarrow> m)"

record 'a execution =
  settled :: "thrown + 'a request_result"
  invocations :: nat
  counters :: stats

definition executeWithConcurrencyControl ::
  "(nat \<Rightarrow> 'a settlement) \<Rightarrow> exec_options \<Rightarrow> stats \<Rightarrow> 'a execution" where
  "executeWithConcurrencyControl requestFn options st0 =
     (let maxRetries = max_retries_of options;
          st1 = st0\<lparr>totalRequests := totalRequests st0 + 1, queuedRequests := queuedRequests st0 + 1\<rparr>;
          st2 = st1\<lparr>queuedRequests := queuedRequests st1 - 1, activeRequests := activeRequests st1 + 1\<rparr>
      in case attempt_loop requestFn maxRetries 0 None 0 st2 of
           (LoopReturn result, n, st3) \<Rightarrow> \<lparr>settled = Inr result, invocations = n, counters = st3\<rparr>
         | (LoopEscape t, n, st3) \<Rightarrow> \<lparr>settled = Inl t, invocations = n, counters = st3\<rparr>
         | (LoopBreak lastError, n, st3) \<Rightarrow>
             (let st4 = st3\<lparr>failedRequests := failedRequests st3 + 1,
                            activeRequests := activeRequests st3 - 1\<rparr>
              in case lastError of
                   None \<Rightarrow>
                     \<lparr>settled = Inl (ThrownError (TypeError_reading ''undefined'' ''message'')),
                      invocations = n, counters = st4\<rparr>
                 | Some e \<Rightarrow>
                     \<lparr>settled = Inl (ThrownError (new_Error
                        (''Request failed after '' @ show_int (maxRetries + 1) @ '' attempts: ''
                          @ message_text e))),
                      invocations = n, counters = st4\<rparr>))"

subsection \<open>Vocabulary of the executor's properties\<close>

definition is_retryable_failure :: "'a settlement \<Rightarrow> bool" where
  "is_retryable_failure s =
     (case try_request s of
        Inl (ThrownError error) \<Rightarrow> isRetryableError error (err_response error)
      | _ \<Rightarrow> False)"

text \<open>The retryable conditions as the specification lists them.\<close>

definition listed_retryable :: "js_error \<Rightarrow> bool" where
  "listed_retryable e =
     ((\<exists>st. err_response e = Some st \<and> st \<in> {Num 429, Num 500, Num 502, Num 503, Num 504})
      \<or> err_code e \<in> {Str ''ECONNRESET'', Str ''ETIMEDOUT'', Str ''ENOTFOUND''}
      \<or> (\<exists>m. err_message e = Some m \<and> str_includes m ''SSS_REQUEST_LIMIT_EXCEEDED''))"

text \<open>The counters when the limiter starts the body.\<close>

definition admitted :: "stats \<Rightarrow> stats" where
  "admitted st =
     (let st1 = st\<lparr>totalRequests := totalRequests st + 1, queuedRequests := queuedRequests st + 1\<rparr>
      in st1\<lparr>queuedRequests := queuedRequests st1 - 1, activeRequests := activeRequests st1 + 1\<rparr>)"

text \<open>Concrete inputs.\<close>

definition default_options :: exec_options where
  "default_options = \<lparr>opt_maxRetries = None\<rparr>"

definition zero_stats :: stats where
  "zero_stats = \<lparr>totalRequests = 0, successfulRequests = 0, failedRequests = 0,
     retriedRequests = 0, queuedRequests = 0, activeRequests = 0\<rparr>"

definition unavailable_once :: "nat \<Rightarrow> string settlement" where
  "unavailable_once k =
     (if k = 0
      then Rejects (ThrownError \<lparr>err_message = Some ''Service Unavailable'', err_code = Undefined,
                                 err_response = Some (Num 503)\<rparr>)
      else Resolves \<lparr>res_data = ''ok'', res_error_code = None\<rparr>)"

definition invalid_field :: "nat \<Rightarrow> string settlement" where
  "invalid_field k = Rejects (ThrownError (new_Error ''Invalid field''))"

section \<open>The retry delay\<close>

text \<open>
  \<^verbatim>\<open>getRetryDelay\<close> computes with JavaScript numbers, which are IEEE 754 binary64
  values: every arithmetic operation returns the exact result rounded to the nearest
  representable number, ties to the even significand. The values are modelled by the
  real numbers they denote and every operation is followed by that rounding, \<open>rd\<close>. A
  number \<open>x\<close> lies in the binade of exponent \<open>\<lfloor>log 2 \<bar>x\<bar>\<rfloor>\<close>, not below the smallest normal
  exponent -1022, and the representable numbers of that binade are the multiples of
  \<open>2 powi (e - 52)\<close>. Overflow is not modelled: \<^verbatim>\<open>Math.pow(2, n)\<close> and its product with 1000
  are infinite for very large \<open>n\<close>, where the model has a large finite number; the minimum
  with 32000 is 32000 in both.
\<close>

definition rhe :: "real \<Rightarrow> int" where
  \<comment> \<open>the nearest integer, a tie going to the even one\<close>
  "rhe y =
     (let f = \<lfloor>y\<rfloor>; d = y - of_int f
      in if d < 1 / 2 then f else if 1 / 2 < d then f + 1 else if even f then f else f + 1)"

definition binade :: "real \<Rightarrow> int" where
  "binade x = max \<lfloor>log 2 \<bar>x\<bar>\<rfloor> (- 1022)"

definition ulp :: "real \<Rightarrow> real" where
  "ulp x = 2 powi (binade x - 52)"

definition rd :: "real \<Rightarrow> real" where
  "rd x = (if x = 0 then 0 else ulp x * of_int (rhe (x / ulp x)))"

text \<open>
  \<^verbatim>\<open>
  function getRetryDelay(attemptNumber) {
    const delay = Math.min(
      CONFIG.initialRetryDelay * Math.pow(2, attemptNumber),
      CONFIG.maxRetryDelay
    );
    // Add jitter (random 0-20% variation) to prevent thundering herd
    const jitter = delay * 0.2 * Math.random();
    return delay + jitter;
  }
  \<close>
  The second argument of the model is the value \<^verbatim>\<open>Math.random()\<close> returns, a number that
  is at least 0 and less than 1. The literal \<^verbatim>\<open>0.2\<close> is the number nearest to one fifth.
\<close>

definition CONFIG_initialRetryDelay :: real where
  "CONFIG_initialRetryDelay = 1000"

definition CONFIG_maxRetryDelay :: real where
  "CONFIG_maxRetryDelay = 32000"

definition double_0_2 :: real where
  "double_0_2 = rd (1 / 5)"

definition getRetryDelay :: "nat \<Rightarrow> real \<Rightarrow> real" where
  "getRetryDelay attemptNumber random =
     (let delay = min (rd (CONFIG_initialRetryDelay * rd (2 ^ attemptNumber))) CONFIG_maxRetryDelay;
          jitter = rd (rd (delay * double_0_2) * random)
      in rd (delay + jitter))"

subsection \<open>Vocabulary of the delay's properties\<close>

text \<open>The delay before jitter, as the specification gives it, in exact arithmetic.\<close>

definition base_delay :: "nat \<Rightarrow> real" where
  "base_delay n = min (1000 * 2 ^ n) 32000"

text \<open>The largest number below 1.\<close>

definition largest_draw :: real where
  "largest_draw = 1 - 1 / 2 ^ 53"

subsection \<open>Batches\<close>

text \<open>
  \<^verbatim>\<open>
  export async function executeBatch(requestFns, options = {}) {
    const { failFast = false, onProgress = null } = options;
    let completed = 0;
    const promises = requestFns.map(async (fn, index) => {
      try {
        const result = await executeWithConcurrencyControl(fn, { metadata: { batchIndex: index } });
        completed++;
        if (onProgress) onProgress({ completed, total: requestFns.length, index });
        return { success: true, data: result, index };
      } catch (error) {
        completed++;
        if (onProgress) onProgress({ completed, total: requestFns.length, index, error });
        if (failFast) throw error;
        return { success: false, error: { code: 'BATCH_ITEM_FAILED', message: error.message, index } };
      }
    });
    if (failFast) return await Promise.all(promises);
    else return await Promise.allSettled(promises);
  }
  \<close>
  The progress callback returns \<open>None\<close> or the value it throws. The items complete in
  some order, given as the list \<open>completion\<close> of indices; \<^verbatim>\<open>completed\<close> counts along it.
  \<^verbatim>\<open>Promise.allSettled\<close> gives, in index order, \<^verbatim>\<open>{status: 'fulfilled', value}\<close> or
  \<^verbatim>\<open>{status: 'rejected', reason}\<close> for every promise; \<^verbatim>\<open>Promise.all\<close> gives the values,
  or rejects with the first rejection. A batch with an item that never completes stays
  pending. The counters are threaded along the completion order: each item's increments
  and decrements are applied together, which gives the same final counters as any
  interleaving of them.
\<close>

record progress =
  pr_completed :: nat
  pr_total :: nat
  pr_index :: nat
  pr_error :: "thrown option"

record batch_options =
  failFast :: bool
  onProgress :: "(progress \<Rightarrow> thrown option) option"

datatype 'a batch_item =
    ItemSuccess "'a request_result" nat
  | ItemFailure string "string option" nat

datatype 'a promise = Fulfilled 'a | Rejected thrown

definition notify :: "batch_options \<Rightarrow> progress \<Rightarrow> thrown option" where
  "notify options p = (case onProgress options of None \<Rightarrow> None | Some callback \<Rightarrow> callback p)"

definition batch_item_catch ::
  "batch_options \<Rightarrow> nat \<Rightarrow> nat \<Rightarrow> thrown \<Rightarrow> nat \<Rightarrow> 'a batch_item promise \<times> nat" where
  "batch_item_catch options len index error completed =
     (let completed = completed + 1 in
      case notify options \<lparr>pr_completed = completed, pr_total = len, pr_index = index,
                            pr_error = Some error\<rparr> of
        Some t \<Rightarrow> (Rejected t, completed)
      | None \<Rightarrow>
          if failFast options then (Rejected error, completed)
          else (case error of
                  ThrownNullish \<Rightarrow>
                    (Rejected (ThrownError (TypeError_reading ''undefined'' ''message'')), completed)
                | ThrownError e \<Rightarrow>
                    (Fulfilled (ItemFailure ''BATCH_ITEM_FAILED'' (err_message e) index), completed)))"

definition batch_item_promise ::
  "batch_options \<Rightarrow> nat \<Rightarrow> nat \<Rightarrow> thrown + 'a request_result \<Rightarrow> nat
     \<Rightarrow> 'a batch_item promise \<times> nat" where
  "batch_item_promise options len index outcome completed =
     (case outcome of
        Inr result \<Rightarrow>
          (let completed = completed + 1 in
           case notify options \<lparr>pr_completed = completed, pr_total = len, pr_index = index,
                                 pr_error = None\<rparr> of
             None \<Rightarrow> (Fulfilled (ItemSuccess result index), completed)
           | Some t \<Rightarrow> batch_item_catch options len index t completed)
      | Inl error \<Rightarrow> batch_item_catch options len index error completed)"

record 'a batch_state =
  bs_completed :: nat
  bs_promises :: "nat \<Rightarrow> 'a batch_item promise option"
  bs_first_rejection :: "thrown option"
  bs_stats :: stats

definition run_item ::
  "(nat \<Rightarrow> 'a settlement) list \<Rightarrow> batch_options \<Rightarrow> nat \<Rightarrow> 'a batch_state \<Rightarrow> 'a batch_state" where
  "run_item requestFns options index s =
     (if index < length requestFns \<and> bs_promises s index = None then
        (let e = executeWithConcurrencyControl (requestFns ! index) \<lparr>opt_maxRetries = None\<rparr> (bs_stats s);
             (p, completed) = batch_item_promise options (length requestFns) index (settled e) (bs_completed s)
         in \<lparr>bs_completed = completed,
             bs_promises = (bs_promises s)(index \<mapsto> p),
             bs_first_rejection =
               (case bs_first_rejection s of
                  Some t \<Rightarrow> Some t
                | None \<Rightarrow> (case p of Rejected t \<Rightarrow> Some t | Fulfilled v \<Rightarrow> None)),
             bs_stats = counters e\<rparr>)
      else s)"

datatype 'a batch_outcome =
    AllSettled "'a batch_item promise list"
  | AllFulfilled "'a batch_item list"
  | BatchRejected thrown
  | BatchPending

fun all_some :: "'a option list \<Rightarrow> 'a list option" where
  "all_some [] = Some []"
| "all_some (None # xs) = None"
| "all_some (Some x # xs) = (case all_some xs of None \<Rightarrow> None | Some ys \<Rightarrow> Some (x # ys))"

definition executeBatch ::
  "(nat \<Rightarrow> 'a settlement) list \<Rightarrow> batch_options \<Rightarrow> nat list \<Rightarrow> stats \<Rightarrow> 'a batch_outcome \<times> stats" where
  "executeBatch requestFns options completion st =
     (let s = fold (run_item requestFns options) completion
                \<lparr>bs_completed = 0, bs_promises = (\<lambda>i. None), bs_first_rejection = None, bs_stats = st\<rparr>;
          promises = map (bs_promises s) [0..<length requestFns]
      in if failFast options then
           (case bs_first_rejection s of
              Some t \<Rightarrow> (BatchRejected t, bs_stats s)
            | None \<Rightarrow>
                (case all_some (map (\<lambda>p. case p of Some (Fulfilled v) \<Rightarrow> Some v | _ \<Rightarrow> None) promises) of
                   Some vs \<Rightarrow> (AllFulfilled vs, bs_stats s)
                 | None \<Rightarrow> (BatchPending, bs_stats s)))
         else
           (case all_some promises of
              Some ps \<Rightarrow> (AllSettled ps, bs_stats s)
            | None \<Rightarrow> (BatchPending, bs_stats s)))"

subsection \<open>Vocabulary of the batch property\<close>

text \<open>
  What the batch reports for one operation, from the operation alone: the result of
  \<^verbatim>\<open>executeWithConcurrencyControl\<close> on it, as a success entry or as a failure entry tagged
  \<^verbatim>\<open>BATCH_ITEM_FAILED\<close>, with its index.
\<close>

definition item_report :: "(nat \<Rightarrow> 'a settlement) \<Rightarrow> nat \<Rightarrow> 'a batch_item" where
  "item_report requestFn index =
     (case settled (executeWithConcurrencyControl requestFn \<lparr>opt_maxRetries = None\<rparr> zero_stats) of
        Inr result \<Rightarrow> ItemSuccess result index
      | Inl error \<Rightarrow>
          ItemFailure ''BATCH_ITEM_FAILED''
            (case error of ThrownError e \<Rightarrow> err_message e | ThrownNullish \<Rightarrow> None) index)"

text \<open>No progress callback, or one that never throws.\<close>

definition quiet :: "batch_options \<Rightarrow> bool" where
  "quiet options = (case onProgress options of None \<Rightarrow> True | Some callback \<Rightarrow> \<forall>p. callback p = None)"

definition reported :: "(nat \<Rightarrow> 'a settlement) list \<Rightarrow> 'a batch_state \<Rightarrow> bool" where
  "reported requestFns s =
     (\<forall>i. bs_promises s i = None
          \<or> bs_promises s i = Some (Fulfilled (item_report (requestFns ! i) i)))"

definition collect_all :: batch_options where
  "collect_all = \<lparr>failFast = False, onProgress = None\<rparr>"

text \<open>An operation that resolves at once, and progress callbacks that throw.\<close>

definition always_ok :: "nat \<Rightarrow> string settlement" where
  "always_ok k = Resolves \<lparr>res_data = ''ok'', res_error_code = None\<rparr>"

definition progress_throws_on_success :: batch_options where
  "progress_throws_on_success =
     \<lparr>failFast = False,
      onProgress = Some (\<lambda>p. case pr_error p of
                              None \<Rightarrow> Some (ThrownError (new_Error ''progress failed''))
                            | Some error \<Rightarrow> None)\<rparr>"

definition progress_throws :: batch_options where
  "progress_throws =
     \<lparr>failFast = False, onProgress = Some (\<lambda>p. Some (ThrownError (new_Error ''progress failed'')))\<rparr>"

section \<open>The credential manager\<close>

text \<open>
  \<^verbatim>\<open>projects-suiteql.js\<close>, the OAuth 2.0 client-credentials part. The process state the
  functions touch is made explicit: the environment variables, the module's
  \<^verbatim>\<open>tokenCache\<close> (a \<^verbatim>\<open>Map\<close>), the clock behind \<^verbatim>\<open>Date.now()\<close>, the \<^verbatim>\<open>jose\<close> signer and
  the token endpoint behind \<^verbatim>\<open>fetch\<close>. The clock is the sequence of its readings and the
  endpoint the sequence of its answers, so time may pass and the endpoint may answer
  anything between and during calls. Every request sent to the endpoint is recorded.
\<close>

record oauth_env =
  NETSUITE_ACCOUNT_ID :: "string option"
  NETSUITE_CLIENT_ID :: "string option"
  NETSUITE_CERT_ID :: "string option"
  NETSUITE_PRIVATE_KEY :: "string option"

record oauth_config =
  accountId :: string
  clientId :: string
  certId :: string
  privateKey :: string
  tokenEndpoint :: string
  scope :: string

record cache_entry =
  token :: jsval
  expiresAt :: "int option"

text \<open>
  The JSON of a token response: \<^verbatim>\<open>access_token\<close> as any value (\<open>Undefined\<close> when the
  field is absent), \<^verbatim>\<open>expires_in\<close> as \<open>Some n\<close> for the number \<open>n\<close> and \<open>None\<close> when
  \<^verbatim>\<open>expires_in * 1000\<close> is \<^verbatim>\<open>NaN\<close> (the field is absent). A comparison with \<^verbatim>\<open>NaN\<close> is
  false, so an entry whose \<open>expiresAt\<close> is \<open>None\<close> is never fresh.
\<close>

record token_data =
  access_token :: jsval
  expires_in :: "int option"

text \<open>
  A response: its status, its body as text, and what \<^verbatim>\<open>response.json()\<close> gives: a thrown
  value for a malformed body, \<open>None\<close> for the JSON \<^verbatim>\<open>null\<close>, or the parsed object.
\<close>

record http_response =
  resp_status :: int
  resp_text :: string
  resp_json :: "thrown + token_data option"

datatype fetch_outcome = NetworkError thrown | Response http_response

record token_request =
  req_url :: string
  req_grant_type :: string
  req_client_assertion_type :: string
  req_client_assertion :: string
  req_scope :: string

record node_process =
  env :: oauth_env
  tokenCache :: "string \<Rightarrow> cache_entry option"
  clock :: "nat \<Rightarrow> int"
  clock_reads :: nat
  signJWT :: "oauth_config \<Rightarrow> thrown + string"
  endpoint :: "nat \<Rightarrow> fetch_outcome"
  requests :: "token_request list"

definition date_now :: "node_process \<Rightarrow> int \<times> node_process" where
  \<comment> \<open>\<^verbatim>\<open>Date.now()\<close>, in milliseconds\<close>
  "date_now w = (clock w (clock_reads w), w\<lparr>clock_reads := Suc (clock_reads w)\<rparr>)"

definition resp_ok :: "http_response \<Rightarrow> bool" where
  \<comment> \<open>\<^verbatim>\<open>response.ok\<close>: the status is in the range 200-299\<close>
  "resp_ok r = (200 \<le> resp_status r \<and> resp_status r \<le> 299)"

definition env_text :: "string option \<Rightarrow> string" where
  "env_text v = (case v of None \<Rightarrow> [] | Some s \<Rightarrow> s)"

fun join_comma :: "string list \<Rightarrow> string" where
  "join_comma [] = []"
| "join_comma [x] = x"
| "join_comma (x # y # ys) = x @ '', '' @ join_comma (y # ys)"

text \<open>
  \<^verbatim>\<open>
  function getOAuthConfig() {
    const required = { accountId: process.env.NETSUITE_ACCOUNT_ID, clientId: ...,
                       certId: ..., privateKey: ... };
    const missing = Object.entries(required).filter(([_, value]) => !value).map(([key]) => key);
    if (missing.length > 0)
      throw new Error(`Missing OAuth M2M configuration: ${missing.join(', ')}`);
    return { ...required,
      tokenEndpoint: `https://${required.accountId}.suitetalk.api.netsuite.com/services/rest/auth/oauth2/v1/token`,
      scope: 'rest_webservices restlets' };
  }
  \<close>
\<close>

definition getOAuthConfig :: "oauth_env \<Rightarrow> thrown + oauth_config" where
  "getOAuthConfig e =
     (let required = [(''accountId'', NETSUITE_ACCOUNT_ID e), (''clientId'', NETSUITE_CLIENT_ID e),
                      (''certId'', NETSUITE_CERT_ID e), (''privateKey'', NETSUITE_PRIVATE_KEY e)];
          missing = map fst (filter (\<lambda>(key, v). v = None \<or> v = Some []) required)
      in if length missing > 0
         then Inl (ThrownError (new_Error (''Missing OAuth M2M configuration: '' @ join_comma missing)))
         else (let account = env_text (NETSUITE_ACCOUNT_ID e) in
               Inr \<lparr>accountId = account,
                    clientId = env_text (NETSUITE_CLIENT_ID e),
                    certId = env_text (NETSUITE_CERT_ID e),
                    privateKey = env_text (NETSUITE_PRIVATE_KEY e),
                    tokenEndpoint = ''https://'' @ account
                      @ ''.suitetalk.api.netsuite.com/services/rest/auth/oauth2/v1/token'',
                    scope = ''rest_webservices restlets''\<rparr>))"

text \<open>
  \<^verbatim>\<open>generateClientAssertion\<close> reads the configuration again, imports the private key and
  signs the claims (issuer, audience, issued-at, expiry in 55 minutes, key id) with
  \<^verbatim>\<open>jose\<close>; the import and the signature are the process's \<open>signJWT\<close>.
\<close>

definition generateClientAssertion :: "node_process \<Rightarrow> thrown + string" where
  "generateClientAssertion w =
     (case getOAuthConfig (env w) of
        Inl t \<Rightarrow> Inl t
      | Inr config \<Rightarrow> signJWT w config)"

text \<open>
  \<^verbatim>\<open>
  async function exchangeJWTForToken() {
    const config = getOAuthConfig();
    const clientAssertion = await generateClientAssertion();
    const response = await fetch(config.tokenEndpoint, { method: 'POST', headers: ...,
      body: new URLSearchParams({ grant_type: 'client_credentials',
        client_assertion_type: 'urn:ietf:params:oauth:client-assertion-type:jwt-bearer',
        client_assertion: clientAssertion, scope: config.scope }) });
    if (!response.ok) {
      const errorText = await response.text();
      throw new Error(`OAuth token exchange failed: ${response.status} - ${errorText}`);
    }
    const data = await response.json();
    if (!data.access_token) throw new Error('No access_token in OAuth response');
    return data;
  }
  \<close>
\<close>

definition exchangeJWTForToken :: "node_process \<Rightarrow> (thrown + token_data) \<times> node_process" where
  "exchangeJWTForToken w =
     (case getOAuthConfig (env w) of
        Inl t \<Rightarrow> (Inl t, w)
      | Inr config \<Rightarrow>
          (case generateClientAssertion w of
             Inl t \<Rightarrow> (Inl t, w)
           | Inr clientAssertion \<Rightarrow>
               (let request = \<lparr>req_url = tokenEndpoint config,
                                req_grant_type = ''client_credentials'',
                                req_client_assertion_type =
                                  ''urn:ietf:params:oauth:client-assertion-type:jwt-bearer'',
                                req_client_assertion = clientAssertion,
                                req_scope = scope config\<rparr>;
                    w1 = w\<lparr>requests := requests w @ [request]\<rparr>
                in case endpoint w (length (requests w)) of
                     NetworkError t \<Rightarrow> (Inl t, w1)
                   | Response response \<Rightarrow>
                       if \<not> resp_ok response then
                         (Inl (ThrownError (new_Error (''OAuth token exchange failed: ''
                            @ show_int (resp_status response) @ '' - '' @ resp_text response))), w1)
                       else
                         (case resp_json response of
                            Inl t \<Rightarrow> (Inl t, w1)
                          | Inr None \<Rightarrow>
                              (Inl (ThrownError (TypeError_reading ''null'' ''access_token'')), w1)
                          | Inr (Some d) \<Rightarrow>
                              if \<not> truthy (access_token d)
                              then (Inl (ThrownError (new_Error ''No access_token in OAuth response'')), w1)
                              else (Inr d, w1)))))"

text \<open>
  \<^verbatim>\<open>
  export async function getAccessToken() {
    const cached = tokenCache.get('access_token');
    if (cached && cached.expiresAt > Date.now() + 300000) return cached.token;
    const { access_token, expires_in } = await exchangeJWTForToken();
    tokenCache.set('access_token', { token: access_token, expiresAt: Date.now() + (expires_in * 1000) });
    return access_token;
  }
  \<close>
\<close>

definition fresh_at :: "cache_entry \<Rightarrow> int \<Rightarrow> bool" where
  \<comment> \<open>\<^verbatim>\<open>cached.expiresAt > now + 300000\<close>\<close>
  "fresh_at cached now = (case expiresAt cached of None \<Rightarrow> False | Some e \<Rightarrow> e > now + 300000)"

definition getAccessToken :: "node_process \<Rightarrow> (thrown + jsval) \<times> node_process" where
  "getAccessToken w =
     (let (hit, w1) =
            (case tokenCache w ''access_token'' of
               None \<Rightarrow> (None, w)
             | Some cached \<Rightarrow>
                 (let (now, w') = date_now w
                  in (if fresh_at cached now then Some (token cached) else None, w')))
      in case hit of
           Some t \<Rightarrow> (Inr t, w1)
         | None \<Rightarrow>
             (case exchangeJWTForToken w1 of
                (Inl t, w2) \<Rightarrow> (Inl t, w2)
              | (Inr d, w2) \<Rightarrow>
                  (let (now, w3) = date_now w2
                   in (Inr (access_token d),
                       w3\<lparr>tokenCache := (tokenCache w3)(''access_token'' \<mapsto>
                            \<lparr>token = access_token d,
                             expiresAt = map_option (\<lambda>s. now + s * 1000) (expires_in d)\<rparr>)\<rparr>))))"

definition clearTokenCache :: "node_process \<Rightarrow> node_process" where
  "clearTokenCache w = w\<lparr>tokenCache := (\<lambda>k. None)\<rparr>"

subsection \<open>Vocabulary of the credential manager's properties\<close>

text \<open>How a call starts: with a usable cached token, or with a refresh.\<close>

definition cache_hit :: "node_process \<Rightarrow> bool" where
  "cache_hit w =
     (case tokenCache w ''access_token'' of
        None \<Rightarrow> False
      | Some cached \<Rightarrow> fresh_at cached (clock w (clock_reads w)))"

text \<open>The exchange reaches the endpoint: the configuration is complete and the assertion is signed.\<close>

definition can_sign :: "node_process \<Rightarrow> bool" where
  "can_sign w = (case generateClientAssertion w of Inl t \<Rightarrow> False | Inr jwt \<Rightarrow> True)"

text \<open>The endpoint's next answer is a failed exchange, as the specification lists them.\<close>

definition exchange_refused :: "node_process \<Rightarrow> bool" where
  "exchange_refused w =
     (case endpoint w (length (requests w)) of
        NetworkError t \<Rightarrow> False
      | Response r \<Rightarrow>
          \<not> resp_ok r
          \<or> (case resp_json r of Inr (Some d) \<Rightarrow> \<not> truthy (access_token d) | _ \<Rightarrow> False))"

text \<open>The endpoint's next answer is a token.\<close>

definition exchange_grants :: "node_process \<Rightarrow> token_data \<Rightarrow> bool" where
  "exchange_grants w d =
     (case endpoint w (length (requests w)) of
        NetworkError t \<Rightarrow> False
      | Response r \<Rightarrow> resp_ok r \<and> resp_json r = Inr (Some d) \<and> truthy (access_token d))"

definition sent :: "node_process \<Rightarrow> nat" where
  \<comment> \<open>the number of token exchanges sent to the endpoint so far\<close>
  "sent w = length (requests w)"

text \<open>The world in which the exchange of a call starts.\<close>

definition before_exchange :: "node_process \<Rightarrow> node_process" where
  "before_exchange w = (case tokenCache w ''access_token'' of None \<Rightarrow> w | Some c \<Rightarrow> snd (date_now w))"

text \<open>Concrete processes.\<close>

definition complete_env :: oauth_env where
  "complete_env = \<lparr>NETSUITE_ACCOUNT_ID = Some ''1234567'', NETSUITE_CLIENT_ID = Some ''client'',
     NETSUITE_CERT_ID = Some ''cert'', NETSUITE_PRIVATE_KEY = Some ''key''\<rparr>"

definition granted :: token_data where
  "granted = \<lparr>access_token = Str ''token-1'', expires_in = Some 3600\<rparr>"

definition cold_process :: node_process where
  "cold_process =
     \<lparr>env = complete_env, tokenCache = (\<lambda>k. None), clock = (\<lambda>k. int k * 1000), clock_reads = 0,
      signJWT = (\<lambda>config. Inr ''assertion''),
      endpoint = (\<lambda>k. Response \<lparr>resp_status = 200, resp_text = [], resp_json = Inr (Some granted)\<rparr>),
      requests = []\<rparr>"

definition stale_process :: node_process where
  "stale_process =
     \<lparr>env = complete_env,
      tokenCache = (\<lambda>k. if k = ''access_token''
                         then Some \<lparr>token = Str ''token-0'', expiresAt = Some 100000\<rparr> else None),
      clock = (\<lambda>k. int k * 1000), clock_reads = 0,
      signJWT = (\<lambda>config. Inr ''assertion''),
      endpoint = (\<lambda>k. Response \<lparr>resp_status = 500, resp_text = ''Internal Server Error'',
                                   resp_json = Inr None\<rparr>),
      requests = []\<rparr>"

section \<open>The composite RESTlet\<close>

text \<open>
  The SuiteScript 2.1 RESTlet that creates a project (a \<^verbatim>\<open>job\<close> record) and its project
  tasks. SuiteScript is synchronous. The script works on the account through the platform
  modules \<^verbatim>\<open>N/record\<close>, \<^verbatim>\<open>N/format\<close>, \<^verbatim>\<open>N/error\<close> and \<^verbatim>\<open>N/log\<close>, which are not part of
  the repository; the model of the account below states what is assumed of them:
  \<^item> the account holds the saved \<^verbatim>\<open>job\<close> and \<^verbatim>\<open>projecttask\<close> records by internal id;
  \<^item> every call of \<^verbatim>\<open>record.create\<close>, \<^verbatim>\<open>setValue\<close>, \<^verbatim>\<open>setText\<close>, \<^verbatim>\<open>save\<close>,
    \<^verbatim>\<open>record.delete\<close> and \<^verbatim>\<open>format.parse\<close> may throw: \<open>faults w k\<close> is what the call number
    \<open>k\<close> of the script throws, if anything, so every pattern of platform failures is
    covered; a call that throws has no other effect;
  \<^item> \<^verbatim>\<open>save\<close> stores the record's fields under the next internal id, \<^verbatim>\<open>record.delete\<close>
    removes the record of that id (what the platform does to its tasks is not modelled);
  \<^item> \<^verbatim>\<open>log.audit\<close>, \<^verbatim>\<open>log.error\<close> and \<^verbatim>\<open>log.debug\<close> append to the execution log (level
    and title; the details are left out) and do not throw;
  \<^item> the account keeps the trace of the platform calls made, each with what it threw, so
    that a property can speak of the call itself (the delete of a project was made, it
    failed) and not only of what the script wrote about it.
  A field value is kept as the expression that computed it: \<^verbatim>\<open>parseInt(v)\<close>,
  \<^verbatim>\<open>parseFloat(v)\<close> and the date parsed from \<open>v\<close> are not evaluated.
\<close>

datatype field_value =
    Plain jsval
  | ParsedInt jsval
  | ParsedFloat jsval
  | ParsedDate jsval
  | DisplayText jsval

record ns_record =
  rec_type :: string
  rec_fields :: "(string \<times> field_value) list"

record ns_error =
  e_name :: string
  e_message :: string

datatype log_level = LogAudit | LogError | LogDebug

datatype api_op =
    OpCreate string
  | OpSetValue string
  | OpSetText string
  | OpSave string
  | OpDelete string nat
  | OpParse

record netsuite =
  jobs :: "nat \<Rightarrow> (string \<times> field_value) list option"
  projecttasks :: "nat \<Rightarrow> (string \<times> field_value) list option"
  next_id :: nat
  faults :: "nat \<Rightarrow> ns_error option"
  api_calls :: nat
  api_trace :: "(api_op \<times> ns_error option) list"
  execution_log :: "(log_level \<times> string) list"
  script_time :: int

type_synonym 'a script = "netsuite \<Rightarrow> (ns_error + 'a) \<times> netsuite"

definition returns :: "'a \<Rightarrow> 'a script" where
  "returns x = (\<lambda>w. (Inr x, w))"

definition throws :: "ns_error \<Rightarrow> 'a script" where
  "throws e = (\<lambda>w. (Inl e, w))"

definition and_then :: "'a script \<Rightarrow> ('a \<Rightarrow> 'b script) \<Rightarrow> 'b script" where
  \<comment> \<open>sequencing: a thrown error skips the rest\<close>
  "and_then m f = (\<lambda>w. case m w of (Inl e, w') \<Rightarrow> (Inl e, w') | (Inr x, w') \<Rightarrow> f x w')"

definition catching :: "'a script \<Rightarrow> (ns_error \<Rightarrow> 'a script) \<Rightarrow> 'a script" where
  \<comment> \<open>\<^verbatim>\<open>try { m } catch (e) { h }\<close>\<close>
  "catching m h = (\<lambda>w. case m w of (Inl e, w') \<Rightarrow> h e w' | (Inr x, w') \<Rightarrow> (Inr x, w'))"

subsection \<open>The platform modules\<close>

definition api_call :: "api_op \<Rightarrow> unit script" where
  "api_call what =
     (\<lambda>w. (case faults w (api_calls w) of None \<Rightarrow> Inr () | Some e \<Rightarrow> Inl e,
           w\<lparr>api_calls := Suc (api_calls w),
             api_trace := api_trace w @ [(what, faults w (api_calls w))]\<rparr>))"

definition record_create :: "string \<Rightarrow> ns_record script" where
  "record_create ty = and_then (api_call (OpCreate ty)) (\<lambda>u. returns \<lparr>rec_type = ty, rec_fields = []\<rparr>)"

definition setValue :: "ns_record \<Rightarrow> string \<Rightarrow> field_value \<Rightarrow> ns_record script" where
  "setValue r fieldId v =
     and_then (api_call (OpSetValue fieldId))
       (\<lambda>u. returns (r\<lparr>rec_fields := rec_fields r @ [(fieldId, v)]\<rparr>))"

definition setText :: "ns_record \<Rightarrow> string \<Rightarrow> jsval \<Rightarrow> ns_record script" where
  "setText r fieldId v =
     and_then (api_call (OpSetText fieldId))
       (\<lambda>u. returns (r\<lparr>rec_fields := rec_fields r @ [(fieldId, DisplayText v)]\<rparr>))"

definition save :: "ns_record \<Rightarrow> nat script" where
  "save r =
     and_then (api_call (OpSave (rec_type r)))
       (\<lambda>u w. (Inr (next_id w),
               (if rec_type r = ''job''
                then w\<lparr>jobs := (jobs w)(next_id w \<mapsto> rec_fields r), next_id := Suc (next_id w)\<rparr>
                else w\<lparr>projecttasks := (projecttasks w)(next_id w \<mapsto> rec_fields r),
                       next_id := Suc (next_id w)\<rparr>)))"

definition record_delete :: "string \<Rightarrow> nat \<Rightarrow> unit script" where
  "record_delete ty i =
     and_then (api_call (OpDelete ty i))
       (\<lambda>u w. (Inr (),
               (if ty = ''job'' then w\<lparr>jobs := (jobs w)(i := None)\<rparr>
                else w\<lparr>projecttasks := (projecttasks w)(i := None)\<rparr>)))"

definition format_parse :: "jsval \<Rightarrow> field_value script" where
  "format_parse v = and_then (api_call OpParse) (\<lambda>u. returns (ParsedDate v))"

definition write_log :: "log_level \<Rightarrow> string \<Rightarrow> unit script" where
  "write_log level title = (\<lambda>w. (Inr (), w\<lparr>execution_log := execution_log w @ [(level, title)]\<rparr>))"

definition error_create :: "string \<Rightarrow> string \<Rightarrow> ns_error" where
  \<comment> \<open>\<^verbatim>\<open>error.create({ name, message, notifyOff: true })\<close>\<close>
  "error_create name message = \<lparr>e_name = name, e_message = message\<rparr>"

subsection \<open>The request\<close>

record project_data =
  p_name :: jsval
  p_entityid :: jsval
  p_customerId :: jsval
  p_startDate :: jsval
  p_endDate :: jsval
  p_status :: jsval
  p_description :: jsval

record task_data =
  t_name :: jsval
  t_plannedWork :: jsval
  t_estimatedHours :: jsval
  t_status :: jsval
  t_resource :: jsval
  t_serviceItem :: jsval
  t_billingClass :: jsval
  t_unitCost :: jsval

text \<open>
  \<open>None\<close> for a \<^verbatim>\<open>project\<close> that is absent or \<^verbatim>\<open>null\<close>, and for \<^verbatim>\<open>tasks\<close> that are absent
  or \<^verbatim>\<open>null\<close>; a field of the project or of a task that is absent is \<open>Undefined\<close>. An
  element of \<^verbatim>\<open>tasks\<close> is a task object, or \<open>None\<close> for a \<^verbatim>\<open>null\<close> in the JSON array:
  reading a property of it raises a TypeError (the message is V8's).
\<close>

record request_body =
  rb_project :: "project_data option"
  rb_tasks :: "task_data option list option"

definition TypeError_null :: "string \<Rightarrow> ns_error" where
  "TypeError_null prop =
     \<lparr>e_name = ''TypeError'',
      e_message = ''Cannot read properties of null (reading '' @ [CHR 0x27] @ prop @ [CHR 0x27] @ '')''\<rparr>"

subsection \<open>Creating the records\<close>

text \<open>
  \<^verbatim>\<open>
  function parseDate(dateString) {
    if (!dateString) return null;
    try { return format.parse({ value: dateString, type: format.Type.DATE }); }
    catch (e) { log.debug('Date Parse Error', ...); return null; }
  }
  \<close>
\<close>

definition parseDate :: "jsval \<Rightarrow> field_value option script" where
  "parseDate dateString =
     (if \<not> truthy dateString then returns None
      else catching (and_then (format_parse dateString) (\<lambda>d. returns (Some d)))
             (\<lambda>e. and_then (write_log LogDebug ''Date Parse Error'') (\<lambda>u. returns None)))"

text \<open>
  \<^verbatim>\<open>
  function createProject(projectData) {
    const projectRec = record.create({ type: record.Type.JOB, isDynamic: false });
    projectRec.setValue({ fieldId: 'entityid', value: projectData.entityid || `PROJ-${Date.now()}` });
    projectRec.setValue({ fieldId: 'companyname', value: projectData.name || projectData.entityid });
    projectRec.setValue({ fieldId: 'parent', value: parseInt(projectData.customerId) });
    if (projectData.startDate) {
      const startDate = parseDate(projectData.startDate);
      if (startDate) projectRec.setValue({ fieldId: 'startdate', value: startDate });
    }
    if (projectData.endDate) { ... 'enddate' ... }
    if (projectData.status) projectRec.setValue({ fieldId: 'entitystatus', value: projectData.status });
    if (projectData.description) projectRec.setValue({ fieldId: 'comments', value: projectData.description });
    const projectId = projectRec.save();
    log.audit('Project Created', { projectId, entityid: projectData.entityid });
    return projectId;
  }
  \<close>
\<close>

definition set_date :: "ns_record \<Rightarrow> string \<Rightarrow> jsval \<Rightarrow> ns_record script" where
  \<comment> \<open>the two guarded date blocks of \<^verbatim>\<open>createProject\<close>\<close>
  "set_date r fieldId dateString =
     (if truthy dateString
      then and_then (parseDate dateString)
             (\<lambda>d. case d of None \<Rightarrow> returns r | Some v \<Rightarrow> setValue r fieldId v)
      else returns r)"

definition createProject :: "project_data \<Rightarrow> nat script" where
  "createProject projectData =
     and_then (record_create ''job'') (\<lambda>r.
     and_then (\<lambda>w. setValue r ''entityid''
                 (Plain (js_or (p_entityid projectData)
                           (Str (''PROJ-'' @ show_int (script_time w))))) w) (\<lambda>r.
     and_then (setValue r ''companyname''
                 (Plain (js_or (p_name projectData) (p_entityid projectData)))) (\<lambda>r.
     and_then (setValue r ''parent'' (ParsedInt (p_customerId projectData))) (\<lambda>r.
     and_then (set_date r ''startdate'' (p_startDate projectData)) (\<lambda>r.
     and_then (set_date r ''enddate'' (p_endDate projectData)) (\<lambda>r.
     and_then (if truthy (p_status projectData)
               then setValue r ''entitystatus'' (Plain (p_status projectData))
               else returns r) (\<lambda>r.
     and_then (if truthy (p_description projectData)
               then setValue r ''comments'' (Plain (p_description projectData))
               else returns r) (\<lambda>r.
     and_then (save r) (\<lambda>projectId.
     and_then (write_log LogAudit ''Project Created'') (\<lambda>u.
     returns projectId))))))))))"

text \<open>
  \<^verbatim>\<open>
  function createProjectTask(taskData, projectId) {
    const taskRec = record.create({ type: 'projecttask', isDynamic: false });
    taskRec.setValue({ fieldId: 'company', value: projectId });
    taskRec.setValue({ fieldId: 'title', value: taskData.name || 'Untitled Task' });
    if (taskData.plannedWork) taskRec.setValue({ fieldId: 'plannedwork', value: parseFloat(taskData.plannedWork) });
    if (taskData.estimatedHours) taskRec.setValue({ fieldId: 'estimatedwork', value: parseFloat(taskData.estimatedHours) });
    if (taskData.status) taskRec.setValue({ fieldId: 'status', value: mapTaskStatus(taskData.status) });
    if (taskData.resource) {
      try { taskRec.setValue({ fieldId: 'assignee', value: parseInt(taskData.resource) }); }
      catch (e) { log.debug('Resource Assignment', ...); }
    }
    if (taskData.serviceItem) { try { taskRec.setText({ fieldId: 'serviceitem', text: taskData.serviceItem }); } catch ... }
    if (taskData.billingClass) { try { ... 'class', parseInt(taskData.billingClass) ... } catch ... }
    if (taskData.unitCost) { try { ... 'rate', parseFloat(taskData.unitCost) ... } catch ... }
    const taskId = taskRec.save();
    log.audit('Task Created', { taskId, projectId, title: taskData.name });
    return taskId;
  }
  \<close>
\<close>

definition guarded :: "ns_record \<Rightarrow> ns_record script \<Rightarrow> string \<Rightarrow> ns_record script" where
  \<comment> \<open>\<^verbatim>\<open>try { set } catch (e) { log.debug(title, ...) }\<close>: the record stays as it was\<close>
  "guarded r assignment title = catching assignment (\<lambda>e. and_then (write_log LogDebug title) (\<lambda>u. returns r))"

definition set_task_fields :: "ns_record \<Rightarrow> task_data \<Rightarrow> nat script" where
  \<comment> \<open>\<^verbatim>\<open>createProjectTask\<close> from its first reading of \<^verbatim>\<open>taskData\<close>\<close>
  "set_task_fields r taskData =
     and_then (setValue r ''title'' (Plain (js_or (t_name taskData) (Str ''Untitled Task'')))) (\<lambda>r.
     and_then (if truthy (t_plannedWork taskData)
               then setValue r ''plannedwork'' (ParsedFloat (t_plannedWork taskData))
               else returns r) (\<lambda>r.
     and_then (if truthy (t_estimatedHours taskData)
               then setValue r ''estimatedwork'' (ParsedFloat (t_estimatedHours taskData))
               else returns r) (\<lambda>r.
     and_then (if truthy (t_status taskData)
               then setValue r ''status'' (Plain (mapTaskStatus (t_status taskData)))
               else returns r) (\<lambda>r.
     and_then (if truthy (t_resource taskData)
               then guarded r (setValue r ''assignee'' (ParsedInt (t_resource taskData)))
                      ''Resource Assignment''
               else returns r) (\<lambda>r.
     and_then (if truthy (t_serviceItem taskData)
               then guarded r (setText r ''serviceitem'' (t_serviceItem taskData)) ''Service Item''
               else returns r) (\<lambda>r.
     and_then (if truthy (t_billingClass taskData)
               then guarded r (setValue r ''class'' (ParsedInt (t_billingClass taskData)))
                      ''Billing Class''
               else returns r) (\<lambda>r.
     and_then (if truthy (t_unitCost taskData)
               then guarded r (setValue r ''rate'' (ParsedFloat (t_unitCost taskData))) ''Unit Cost''
               else returns r) (\<lambda>r.
     and_then (save r) (\<lambda>taskId.
     and_then (write_log LogAudit ''Task Created'') (\<lambda>u.
     returns taskId))))))))))"

definition createProjectTask :: "task_data option \<Rightarrow> nat \<Rightarrow> nat script" where
  "createProjectTask taskData projectId =
     and_then (record_create ''projecttask'') (\<lambda>r.
     and_then (setValue r ''company'' (Plain (Num (int projectId)))) (\<lambda>r.
     case taskData of
       None \<Rightarrow> throws (TypeError_null ''name'')
     | Some task \<Rightarrow> set_task_fields r task))"

subsection \<open>The POST handler\<close>

text \<open>What the handler returns: \<^verbatim>\<open>{ success: true, data, error: null }\<close> or
  \<^verbatim>\<open>{ success: false, data: null, error: { code, message, details } }\<close>.\<close>

record success_data =
  s_projectId :: nat
  s_taskIds :: "nat list"
  s_taskCount :: nat
  s_entityid :: jsval

record failure_details =
  f_projectId :: "nat option"
  partialTasksCreated :: nat
  totalTasksRequested :: nat

record failure =
  f_code :: string
  f_message :: string
  f_details :: failure_details

datatype envelope = Succeeded success_data | Failed failure

text \<open>
  The loop over the tasks, with its rollback:
  \<^verbatim>\<open>
  for (let i = 0; i < requestBody.tasks.length; i++) {
    const task = requestBody.tasks[i];
    try {
      const taskId = createProjectTask(task, projectId);
      createdTaskIds.push(taskId);
    } catch (taskError) {
      log.error('Task Creation Failed', { taskIndex: i, taskName: task.name, error: taskError.message });
      try {
        record.delete({ type: record.Type.JOB, id: projectId });
        log.audit('Rollback Complete', { deletedProjectId: projectId });
      } catch (deleteError) {
        log.error('Rollback Failed', { projectId, deleteError: deleteError.message });
      }
      throw error.create({ name: 'TASK_CREATE_FAILED',
        message: `Failed to create task "${task.name}" (index ${i}): ${taskError.message}. Project ${projectId} has been rolled back.`,
        notifyOff: true });
    }
  }
  \<close>
  The loop returns the error it throws, if any, with \<^verbatim>\<open>createdTaskIds\<close> as it then is.
  For a \<^verbatim>\<open>null\<close> task the argument \<^verbatim>\<open>task.name\<close> of the first \<^verbatim>\<open>log.error\<close> in the
  \<^verbatim>\<open>catch\<close> raises a TypeError, which leaves the loop before the rollback.
\<close>

definition rollback :: "nat \<Rightarrow> unit script" where
  "rollback projectId =
     catching (and_then (record_delete ''job'' projectId)
                 (\<lambda>u. write_log LogAudit ''Rollback Complete''))
       (\<lambda>deleteError. write_log LogError ''Rollback Failed'')"

definition task_failed_message :: "task_data \<Rightarrow> nat \<Rightarrow> ns_error \<Rightarrow> nat \<Rightarrow> string" where
  "task_failed_message task i taskError projectId =
     ''Failed to create task '' @ [CHR 0x22] @ js_to_string (t_name task) @ [CHR 0x22]
       @ '' (index '' @ show_nat i @ ''): '' @ e_message taskError
       @ ''. Project '' @ show_nat projectId @ '' has been rolled back.''"

fun create_tasks ::
  "task_data option list \<Rightarrow> nat \<Rightarrow> nat \<Rightarrow> nat list \<Rightarrow> netsuite
     \<Rightarrow> ns_error option \<times> nat list \<times> netsuite" where
  "create_tasks [] i projectId createdTaskIds w = (None, createdTaskIds, w)"
| "create_tasks (task # rest) i projectId createdTaskIds w =
     (case createProjectTask task projectId w of
        (Inr taskId, w1) \<Rightarrow> create_tasks rest (Suc i) projectId (createdTaskIds @ [taskId]) w1
      | (Inl taskError, w1) \<Rightarrow>
          (case task of
             None \<Rightarrow> (Some (TypeError_null ''name''), createdTaskIds, w1)
           | Some taskObject \<Rightarrow>
               (let w2 = snd (write_log LogError ''Task Creation Failed'' w1);
                    w3 = snd (rollback projectId w2)
                in (Some (error_create ''TASK_CREATE_FAILED''
                            (task_failed_message taskObject i taskError projectId)),
                    createdTaskIds, w3))))"

text \<open>
  \<^verbatim>\<open>
  function post(requestBody) {
    let projectId = null;
    const createdTaskIds = [];
    try {
      if (!requestBody.project) throw error.create({ name: 'MISSING_PROJECT_DATA', ... });
      if (!requestBody.project.customerId) throw error.create({ name: 'MISSING_CUSTOMER_ID', ... });
      log.audit('Starting Composite Create', ...);
      projectId = createProject(requestBody.project);
      if (requestBody.tasks && requestBody.tasks.length > 0) { ... the loop ... }
      return { success: true,
               data: { projectId, taskIds: createdTaskIds, taskCount: createdTaskIds.length,
                       entityid: requestBody.project.entityid },
               error: null };
    } catch (e) {
      log.error('Composite Create Failed', ...);
      return { success: false, data: null,
               error: { code: e.name || 'COMPOSITE_CREATE_ERROR',
                        message: e.message || 'Unknown error occurred',
                        details: { projectId, partialTasksCreated: createdTaskIds.length,
                                   totalTasksRequested: (requestBody.tasks || []).length } } };
    }
  }
  \<close>
\<close>

definition requested_tasks :: "request_body \<Rightarrow> task_data option list" where
  \<comment> \<open>\<^verbatim>\<open>requestBody.tasks || []\<close>\<close>
  "requested_tasks requestBody = (case rb_tasks requestBody of None \<Rightarrow> [] | Some ts \<Rightarrow> ts)"

definition failure_response ::
  "request_body \<Rightarrow> nat option \<Rightarrow> nat list \<Rightarrow> ns_error \<Rightarrow> netsuite \<Rightarrow> envelope \<times> netsuite" where
  \<comment> \<open>the \<^verbatim>\<open>catch (e)\<close> of \<^verbatim>\<open>post\<close>\<close>
  "failure_response requestBody projectId createdTaskIds e w =
     (Failed \<lparr>f_code = (if e_name e \<noteq> [] then e_name e else ''COMPOSITE_CREATE_ERROR''),
              f_message = (if e_message e \<noteq> [] then e_message e else ''Unknown error occurred''),
              f_details = \<lparr>f_projectId = projectId,
                           partialTasksCreated = length createdTaskIds,
                           totalTasksRequested = length (requested_tasks requestBody)\<rparr>\<rparr>,
      snd (write_log LogError ''Composite Create Failed'' w))"

definition post :: "request_body \<Rightarrow> netsuite \<Rightarrow> envelope \<times> netsuite" where
  "post requestBody w =
     (case rb_project requestBody of
        None \<Rightarrow>
          failure_response requestBody None []
            (error_create ''MISSING_PROJECT_DATA'' (''Request must include '' @ [CHR 0x22] @ ''project''
               @ [CHR 0x22] @ '' object'')) w
      | Some projectData \<Rightarrow>
          if \<not> truthy (p_customerId projectData) then
            failure_response requestBody None []
              (error_create ''MISSING_CUSTOMER_ID'' ''Project must specify customerId'') w
          else
            (let w1 = snd (write_log LogAudit ''Starting Composite Create'' w) in
             case createProject projectData w1 of
               (Inl e, w2) \<Rightarrow> failure_response requestBody None [] e w2
             | (Inr projectId, w2) \<Rightarrow>
                 (case create_tasks (requested_tasks requestBody) 0 projectId [] w2 of
                    (Some e, createdTaskIds, w3) \<Rightarrow>
                      failure_response requestBody (Some projectId) createdTaskIds e w3
                  | (None, createdTaskIds, w3) \<Rightarrow>
                      (Succeeded \<lparr>s_projectId = projectId, s_taskIds = createdTaskIds,
                                  s_taskCount = length createdTaskIds,
                                  s_entityid = p_entityid projectData\<rparr>, w3))))"

subsection \<open>Vocabulary of the handler's properties\<close>

text \<open>The log entries written from \<open>w\<close> to \<open>w'\<close>.\<close>

definition logged_since :: "netsuite \<Rightarrow> netsuite \<Rightarrow> (log_level \<times> string) list" where
  "logged_since w w' = drop (length (execution_log w)) (execution_log w')"

text \<open>The script logged a failed rollback.\<close>

definition rollback_failed :: "netsuite \<Rightarrow> netsuite \<Rightarrow> bool" where
  "rollback_failed w w' = ((LogError, ''Rollback Failed'') \<in> set (logged_since w w'))"

text \<open>The platform calls made from \<open>w\<close> to \<open>w'\<close>; a delete of the project was made; it threw.\<close>

definition calls_since :: "netsuite \<Rightarrow> netsuite \<Rightarrow> (api_op \<times> ns_error option) list" where
  "calls_since w w' = drop (length (api_trace w)) (api_trace w')"

definition delete_failed_in :: "(api_op \<times> ns_error option) list \<Rightarrow> nat \<Rightarrow> bool" where
  "delete_failed_in cs i = list_ex (\<lambda>c. fst c = OpDelete ''job'' i \<and> snd c \<noteq> None) cs"

definition delete_attempted :: "netsuite \<Rightarrow> netsuite \<Rightarrow> nat \<Rightarrow> bool" where
  "delete_attempted w w' i = list_ex (\<lambda>c. fst c = OpDelete ''job'' i) (calls_since w w')"

definition delete_failed :: "netsuite \<Rightarrow> netsuite \<Rightarrow> nat \<Rightarrow> bool" where
  "delete_failed w w' i = delete_failed_in (calls_since w w') i"

text \<open>The project the call created, as the response names it, and whether it is in the account.\<close>

definition parent_of :: "envelope \<Rightarrow> nat option" where
  "parent_of r = (case r of Succeeded d \<Rightarrow> Some (s_projectId d) | Failed f \<Rightarrow> f_projectId (f_details f))"

definition parent_exists :: "envelope \<Rightarrow> netsuite \<Rightarrow> bool" where
  "parent_exists r w' = (case parent_of r of None \<Rightarrow> False | Some i \<Rightarrow> jobs w' i \<noteq> None)"

definition succeeded :: "envelope \<Rightarrow> bool" where
  "succeeded r = (case r of Succeeded d \<Rightarrow> True | Failed f \<Rightarrow> False)"

text \<open>The compensating delete of the project the call created failed.\<close>

definition compensation_failed :: "envelope \<Rightarrow> netsuite \<Rightarrow> netsuite \<Rightarrow> bool" where
  "compensation_failed r w w' = (case parent_of r of None \<Rightarrow> False | Some i \<Rightarrow> delete_failed w w' i)"

text \<open>A task record of the project is in the account under the id.\<close>

definition task_of :: "netsuite \<Rightarrow> nat \<Rightarrow> nat \<Rightarrow> bool" where
  "task_of w' projectId taskId =
     (case projecttasks w' taskId of
        None \<Rightarrow> False
      | Some fs \<Rightarrow> (''company'', Plain (Num (int projectId))) \<in> set fs)"

text \<open>Steps that log no failed rollback and delete nothing.\<close>

fun is_delete :: "api_op \<Rightarrow> bool" where
  "is_delete (OpDelete ty i) = True"
| "is_delete what = False"

definition quietly :: "netsuite \<Rightarrow> netsuite \<Rightarrow> bool" where
  "quietly w w' =
     ((\<exists>es. execution_log w' = execution_log w @ es \<and> (LogError, ''Rollback Failed'') \<notin> set es)
      \<and> (\<exists>cs. api_trace w' = api_trace w @ cs \<and> \<not> list_ex (\<lambda>c. is_delete (fst c)) cs))"

text \<open>Steps that moreover leave the saved records alone.\<close>

definition unchanged :: "netsuite \<Rightarrow> netsuite \<Rightarrow> bool" where
  "unchanged w w' =
     (jobs w' = jobs w \<and> projecttasks w' = projecttasks w \<and> next_id w' = next_id w
      \<and> quietly w w')"

definition keeps :: "'a script \<Rightarrow> bool" where
  "keeps m = (\<forall>w. unchanged w (snd (m w)))"

definition builds :: "(ns_record \<Rightarrow> bool) \<Rightarrow> ns_record script \<Rightarrow> bool" where
  "builds P m = (keeps m \<and> (\<forall>w r. fst (m w) = Inr r \<longrightarrow> P r))"

definition shaped :: "string \<Rightarrow> (string \<times> field_value) set \<Rightarrow> ns_record \<Rightarrow> bool" where
  "shaped ty req r = (rec_type r = ty \<and> req \<subseteq> set (rec_fields r))"

text \<open>What creating one record does: nothing on failure, one record under the next id on success.\<close>

definition created :: "string \<Rightarrow> (string \<times> field_value) set \<Rightarrow> netsuite \<Rightarrow> ns_error + nat \<Rightarrow> netsuite \<Rightarrow> bool" where
  "created ty req w r w' =
     (quietly w w'
      \<and> (case r of
            Inl e \<Rightarrow> jobs w' = jobs w \<and> projecttasks w' = projecttasks w \<and> next_id w' = next_id w
          | Inr i \<Rightarrow>
              i = next_id w \<and> next_id w' = Suc i
              \<and> (\<exists>fs. req \<subseteq> set fs
                    \<and> (if ty = ''job''
                        then jobs w' = (jobs w)(i \<mapsto> fs) \<and> projecttasks w' = projecttasks w
                        else projecttasks w' = (projecttasks w)(i \<mapsto> fs) \<and> jobs w' = jobs w))))"

definition creates :: "string \<Rightarrow> (string \<times> field_value) set \<Rightarrow> nat script \<Rightarrow> bool" where
  "creates ty req m = (\<forall>w. created ty req w (fst (m w)) (snd (m w)))"

text \<open>Concrete requests and accounts.\<close>

definition website_project :: project_data where
  "website_project = \<lparr>p_name = Str ''Website'', p_entityid = Str ''PRJ-1'', p_customerId = Num 3161,
     p_startDate = Undefined, p_endDate = Undefined, p_status = Undefined, p_description = Undefined\<rparr>"

definition design_task :: task_data where
  "design_task = \<lparr>t_name = Str ''Design'', t_plannedWork = Undefined, t_estimatedHours = Undefined,
     t_status = Undefined, t_resource = Undefined, t_serviceItem = Undefined,
     t_billingClass = Undefined, t_unitCost = Undefined\<rparr>"

definition one_task_request :: request_body where
  "one_task_request = \<lparr>rb_project = Some website_project, rb_tasks = Some [Some design_task]\<rparr>"

definition partial_request :: request_body where
  \<comment> \<open>\<^verbatim>\<open>{project: ..., tasks: [{name: 'Design'}, null]}\<close>\<close>
  "partial_request = \<lparr>rb_project = Some website_project, rb_tasks = Some [Some design_task, None]\<rparr>"

definition account :: "(nat \<Rightarrow> ns_error option) \<Rightarrow> netsuite" where
  \<comment> \<open>an empty account whose next internal id is 1, with the given platform failures\<close>
  "account fs = \<lparr>jobs = (\<lambda>i. None), projecttasks = (\<lambda>i. None), next_id = 1, faults = fs,
     api_calls = 0, api_trace = [], execution_log = [], script_time = 0\<rparr>"

definition no_faults :: "nat \<Rightarrow> ns_error option" where
  "no_faults k = None"

text \<open>
  The ninth platform call of the script (number 8) is the \<^verbatim>\<open>save\<close> of the task; the tenth
  is the \<^verbatim>\<open>record.delete\<close> of the rollback.
\<close>

definition task_save_fails :: "nat \<Rightarrow> ns_error option" where
  "task_save_fails k =
     (if k = 8 then Some \<lparr>e_name = ''INVALID_FLD_VALUE'', e_message = ''Invalid title''\<rparr> else None)"

definition task_save_and_delete_fail :: "nat \<Rightarrow> ns_error option" where
  "task_save_and_delete_fail k =
     (if k = 8 then Some \<lparr>e_name = ''INVALID_FLD_VALUE'', e_message = ''Invalid title''\<rparr>
      else if k = 9 then Some \<lparr>e_name = ''THIS_RECORD_CANNOT_BE_DELETED'', e_message = ''Dependent records''\<rparr>
      else None)"

chapter \<open>Properties\<close>

section \<open>Properties of the status mapping\<close>

lemma mapTaskStatus_known_labels:
  "mapTaskStatus (Str ''Not Started'') = Str ''NOTSTART''"
  "mapTaskStatus (Str ''In Progress'') = Str ''PROGRESS''"
  "mapTaskStatus (Str ''Completed'') = Str ''COMPLETE''"
  "mapTaskStatus (Str ''On Hold'') = Str ''ONHOLD''"
  by (simp_all add: mapTaskStatus_def get_property_def statusMap_def js_or_def)

lemma mapTaskStatus_undefined: "mapTaskStatus Undefined = Str ''NOTSTART''"
  by (simp add: mapTaskStatus_def get_property_def statusMap_def js_or_def
      object_prototype_keys_def)

lemma mapTaskStatus_own_or_default:
  assumes "s \<notin> set object_prototype_keys"
  shows "mapTaskStatus (Str s) \<in> netsuite_status_codes"
    and "s \<notin> frontend_labels \<Longrightarrow> mapTaskStatus (Str s) = Str ''NOTSTART''"
  using assms
  by (auto simp add: mapTaskStatus_def get_property_def statusMap_def js_or_def
      netsuite_status_codes_def frontend_labels_def)

text \<open>
  C10. The claim: for every input string, \<open>mapTaskStatus\<close> returns one of the four NetSuite
  codes, and \<open>NOTSTART\<close> for every input other than the four frontend labels. The lookup
  \<^verbatim>\<open>statusMap[frontendStatus]\<close> is made on an object literal, so a status that names a
  property of \<^verbatim>\<open>Object.prototype\<close> finds a truthy inherited value and the default after
  \<^verbatim>\<open>||\<close> is not taken: for the status \<^verbatim>\<open>'constructor'\<close> the function returns the inherited
  constructor function, which is none of the four codes.
\<close>

theorem mapTaskStatus_inherited_key:
  "mapTaskStatus (Str ''constructor'') = Inherited ''constructor''
   \<and> mapTaskStatus (Str ''constructor'') \<notin> netsuite_status_codes
   \<and> ''constructor'' \<notin> frontend_labels
   \<and> mapTaskStatus (Str ''constructor'') \<noteq> Str ''NOTSTART''"
  by (simp add: mapTaskStatus_def get_property_def statusMap_def js_or_def
      object_prototype_keys_def netsuite_status_codes_def frontend_labels_def)

section \<open>Properties of the request executor\<close>

subsection \<open>The retry loop\<close>

lemma attempt_loop_calls_bound:
  "attempt_loop requestFn m a le c st = (ex, n, st') \<Longrightarrow> a \<le> m + 1
     \<Longrightarrow> c \<le> n \<and> int n \<le> int c + (m + 1 - a)"
proof (induction requestFn m a le c st rule: attempt_loop.induct)
  case (1 requestFn maxRetries attempt lastError calls st)
  show ?case
  proof (cases "attempt \<le> maxRetries")
    case False
    with "1.prems" show ?thesis by (simp add: attempt_loop.simps)
  next
    case True
    show ?thesis
    proof (cases "try_request (requestFn calls)")
      case (Inr result)
      with True "1.prems" show ?thesis by (auto simp add: attempt_loop.simps)
    next
      case (Inl t)
      show ?thesis
      proof (cases t)
        case ThrownNullish
        with Inl True "1.prems" show ?thesis by (auto simp add: attempt_loop.simps)
      next
        case (ThrownError error)
        show ?thesis
        proof (cases "attempt < maxRetries \<and> isRetryableError error (err_response error)")
          case retry: True
          with Inl ThrownError True "1.prems"
          have "attempt_loop requestFn maxRetries (attempt + 1) (Some error) (Suc calls) st = (ex, n, st')"
            by (simp add: attempt_loop.simps)
          from "1.IH"[OF True Inl ThrownError retry this] retry
          show ?thesis by auto
        next
          case False
          with Inl ThrownError True "1.prems" show ?thesis
            by (auto simp add: attempt_loop.simps)
        qed
      qed
    qed
  qed
qed

lemma attempt_loop_counters:
  "attempt_loop requestFn m a le c st = (ex, n, st') \<Longrightarrow> a = int c
     \<Longrightarrow> st' = (case ex of
                 LoopReturn r \<Rightarrow>
                   st\<lparr>successfulRequests := successfulRequests st + 1,
                      activeRequests := activeRequests st - 1,
                      retriedRequests := (if 2 \<le> n then retriedRequests st + 1 else retriedRequests st)\<rparr>
               | _ \<Rightarrow> st)"
proof (induction requestFn m a le c st rule: attempt_loop.induct)
  case (1 requestFn maxRetries attempt lastError calls st)
  show ?case
  proof (cases "attempt \<le> maxRetries")
    case False
    with "1.prems" show ?thesis by (auto simp add: attempt_loop.simps)
  next
    case True
    show ?thesis
    proof (cases "try_request (requestFn calls)")
      case (Inr result)
      with True "1.prems" show ?thesis by (auto simp add: attempt_loop.simps)
    next
      case (Inl t)
      show ?thesis
      proof (cases t)
        case ThrownNullish
        with Inl True "1.prems" show ?thesis by (auto simp add: attempt_loop.simps)
      next
        case (ThrownError error)
        show ?thesis
        proof (cases "attempt < maxRetries \<and> isRetryableError error (err_response error)")
          case retry: True
          with Inl ThrownError True "1.prems"
          have "attempt_loop requestFn maxRetries (attempt + 1) (Some error) (Suc calls) st = (ex, n, st')"
            by (simp add: attempt_loop.simps)
          from "1.IH"[OF True Inl ThrownError retry this] "1.prems"(2)
          show ?thesis by auto
        next
          case False
          with Inl ThrownError True "1.prems" show ?thesis
            by (auto simp add: attempt_loop.simps)
        qed
      qed
    qed
  qed
qed

lemma attempt_loop_retry_prefix:
  "a + int k \<le> m \<Longrightarrow> \<forall>j<k. is_retryable_failure (requestFn (c + j))
     \<Longrightarrow> attempt_loop requestFn m a le c st
         = attempt_loop requestFn m (a + int k) (if k = 0 then le else
              (case try_request (requestFn (c + k - 1)) of Inl (ThrownError e) \<Rightarrow> Some e | _ \<Rightarrow> None)) (c + k) st"
proof (induction k arbitrary: a c le)
  case 0
  then show ?case by simp
next
  case (Suc k)
  from Suc.prems(2) have first: "is_retryable_failure (requestFn c)"
    by (metis add.right_neutral zero_less_Suc)
  then obtain e where e: "try_request (requestFn c) = Inl (ThrownError e)"
      and re: "isRetryableError e (err_response e)"
    by (auto simp add: is_retryable_failure_def split: sum.splits thrown.splits)
  from Suc.prems(1) have lt: "a < m" "a \<le> m" by auto
  have step: "attempt_loop requestFn m a le c st = attempt_loop requestFn m (a + 1) (Some e) (Suc c) st"
    using e re lt by (subst attempt_loop.simps) simp
  have rest: "\<forall>j<k. is_retryable_failure (requestFn (Suc c + j))"
    using Suc.prems(2) by (metis Suc_less_eq add_Suc_shift)
  have "a + 1 + int k \<le> m" using Suc.prems(1) by simp
  from Suc.IH[OF this rest, of "Some e"]
  have "attempt_loop requestFn m (a + 1) (Some e) (Suc c) st
      = attempt_loop requestFn m (a + 1 + int k)
          (if k = 0 then Some e else
             (case try_request (requestFn (Suc c + k - 1)) of Inl (ThrownError e) \<Rightarrow> Some e | _ \<Rightarrow> None))
          (Suc c + k) st" .
  moreover have "(if k = 0 then Some e else
             (case try_request (requestFn (Suc c + k - 1)) of Inl (ThrownError e) \<Rightarrow> Some e | _ \<Rightarrow> None))
       = (case try_request (requestFn (c + Suc k - 1)) of Inl (ThrownError e) \<Rightarrow> Some e | _ \<Rightarrow> None)"
    using e by (cases k) auto
  ultimately show ?case using step by (simp add: ac_simps)
qed

lemma str_includes_nonempty: "str_includes m (c # cs) \<Longrightarrow> m \<noteq> []"
  by (cases m) auto

lemma isRetryableError_listed: "isRetryableError e (err_response e) = listed_retryable e"
  by (auto simp add: isRetryableError_def listed_retryable_def retryableStatuses_def
      split: option.splits dest: str_includes_nonempty)

lemma rate_limit_signal_retryable:
  "res_error_code r = Some ''SSS_REQUEST_LIMIT_EXCEEDED'' \<Longrightarrow> is_retryable_failure (Resolves r)"
  by (simp add: is_retryable_failure_def try_request_def isRetryableError_def new_Error_def)

lemma executeWithConcurrencyControl_loop:
  assumes "attempt_loop requestFn (max_retries_of options) 0 None 0 (admitted st) = (ex, n, st')"
  shows "invocations (executeWithConcurrencyControl requestFn options st) = n"
    and "ex = LoopReturn r \<Longrightarrow>
           settled (executeWithConcurrencyControl requestFn options st) = Inr r
           \<and> counters (executeWithConcurrencyControl requestFn options st) = st'"
    and "ex = LoopEscape t \<Longrightarrow>
           settled (executeWithConcurrencyControl requestFn options st) = Inl t
           \<and> counters (executeWithConcurrencyControl requestFn options st) = st'"
    and "ex = LoopBreak (Some e) \<Longrightarrow>
           settled (executeWithConcurrencyControl requestFn options st)
             = Inl (ThrownError (new_Error (''Request failed after ''
                 @ show_int (max_retries_of options + 1) @ '' attempts: '' @ message_text e)))
           \<and> counters (executeWithConcurrencyControl requestFn options st)
             = st'\<lparr>failedRequests := failedRequests st' + 1, activeRequests := activeRequests st' - 1\<rparr>"
    and "ex = LoopBreak None \<Longrightarrow>
           settled (executeWithConcurrencyControl requestFn options st)
             = Inl (ThrownError (TypeError_reading ''undefined'' ''message''))
           \<and> counters (executeWithConcurrencyControl requestFn options st)
             = st'\<lparr>failedRequests := failedRequests st' + 1, activeRequests := activeRequests st' - 1\<rparr>"
  using assms
  by (auto simp add: executeWithConcurrencyControl_def admitted_def Let_def
      split: loop_exit.splits option.splits)

lemma attempt_loop_escape:
  "attempt_loop requestFn m a le c st = (LoopEscape t, n, st')
     \<Longrightarrow> t = ThrownError (TypeError_reading ''undefined'' ''response'')"
proof (induction requestFn m a le c st rule: attempt_loop.induct)
  case (1 requestFn maxRetries attempt lastError calls st)
  from "1.prems" have le: "attempt \<le> maxRetries"
    by (subst (asm) attempt_loop.simps) (simp split: if_splits)
  show ?case
  proof (cases "try_request (requestFn calls)")
    case (Inr result)
    with le "1.prems" show ?thesis by (subst (asm) attempt_loop.simps) simp
  next
    case (Inl u)
    show ?thesis
    proof (cases u)
      case ThrownNullish
      with Inl le "1.prems" show ?thesis by (subst (asm) attempt_loop.simps) simp
    next
      case (ThrownError error)
      show ?thesis
      proof (cases "attempt < maxRetries \<and> isRetryableError error (err_response error)")
        case retry: True
        with Inl ThrownError le "1.prems"
        have "attempt_loop requestFn maxRetries (attempt + 1) (Some error) (Suc calls) st
                = (LoopEscape t, n, st')"
          by (subst (asm) attempt_loop.simps) simp
        from "1.IH"[OF le Inl ThrownError retry this] show ?thesis .
      next
        case False
        with Inl ThrownError le "1.prems" show ?thesis
          by (subst (asm) attempt_loop.simps) auto
      qed
    qed
  qed
qed

lemma executeWithConcurrencyControl_throws_error:
  "settled (executeWithConcurrencyControl requestFn options st) \<noteq> Inl ThrownNullish"
proof -
  obtain ex n st' where loop:
    "attempt_loop requestFn (max_retries_of options) 0 None 0 (admitted st) = (ex, n, st')"
    by (cases "attempt_loop requestFn (max_retries_of options) 0 None 0 (admitted st)") auto
  note E = executeWithConcurrencyControl_loop[OF loop]
  show ?thesis
  proof (cases ex)
    case (LoopReturn r)
    with E(2) show ?thesis by simp
  next
    case (LoopEscape t)
    with attempt_loop_escape loop E(3) show ?thesis by fastforce
  next
    case (LoopBreak le)
    with E(4,5) show ?thesis by (cases le) auto
  qed
qed

subsection \<open>Attempts\<close>

text \<open>
  C5. With a retry budget \<open>maxRetries \<ge> 0\<close>, the request function is invoked at most
  \<open>maxRetries + 1\<close> times; when the invocation \<open>k \<le> maxRetries\<close> resolves (without the
  embedded rate-limit signal) after \<open>k\<close> retryable failures, the call returns that result
  after exactly \<open>k + 1\<close> invocations; and when the first invocation throws an error that
  is none of the listed retryable conditions, exactly one invocation is made and the call
  fails.
\<close>

theorem retry_budget:
  fixes requestFn :: "nat \<Rightarrow> 'a settlement"
  assumes budget: "0 \<le> max_retries_of options"
  shows "int (invocations (executeWithConcurrencyControl requestFn options st))
           \<le> max_retries_of options + 1
       \<and> (\<forall>k r. int k \<le> max_retries_of options
              \<and> (\<forall>j<k. is_retryable_failure (requestFn j))
              \<and> requestFn k = Resolves r
              \<and> res_error_code r \<noteq> Some ''SSS_REQUEST_LIMIT_EXCEEDED''
            \<longrightarrow> settled (executeWithConcurrencyControl requestFn options st) = Inr r
                \<and> invocations (executeWithConcurrencyControl requestFn options st) = Suc k)
       \<and> (\<forall>e. requestFn 0 = Rejects (ThrownError e) \<and> \<not> listed_retryable e
            \<longrightarrow> invocations (executeWithConcurrencyControl requestFn options st) = 1
                \<and> (\<exists>err. settled (executeWithConcurrencyControl requestFn options st) = Inl err))"
proof -
  let ?m = "max_retries_of options"
  let ?E = "executeWithConcurrencyControl requestFn options st"
  obtain ex n st' where loop: "attempt_loop requestFn ?m 0 None 0 (admitted st) = (ex, n, st')"
    by (cases "attempt_loop requestFn ?m 0 None 0 (admitted st)") auto
  have calls: "invocations ?E = n"
    by (rule executeWithConcurrencyControl_loop(1)[OF loop])
  have bound: "int (invocations ?E) \<le> ?m + 1"
    using attempt_loop_calls_bound[OF loop] budget calls by simp
  have success: "settled ?E = Inr r \<and> invocations ?E = Suc k"
    if k: "int k \<le> ?m" and prefix: "\<forall>j<k. is_retryable_failure (requestFn j)"
      and ok: "requestFn k = Resolves r" "res_error_code r \<noteq> Some ''SSS_REQUEST_LIMIT_EXCEEDED''"
    for k r
  proof -
    define le where "le = (if k = 0 then None else
       (case try_request (requestFn (0 + k - 1)) of Inl (ThrownError e) \<Rightarrow> Some e | _ \<Rightarrow> None))"
    have "attempt_loop requestFn ?m 0 None 0 (admitted st)
        = attempt_loop requestFn ?m (0 + int k) le (0 + k) (admitted st)"
      unfolding le_def using k prefix by (intro attempt_loop_retry_prefix) auto
    also have "\<dots> = (LoopReturn r, Suc k,
        (admitted st)\<lparr>successfulRequests := successfulRequests (admitted st) + 1,
           activeRequests := activeRequests (admitted st) - 1,
           retriedRequests := (if int k > 0 then retriedRequests (admitted st) + 1
                               else retriedRequests (admitted st))\<rparr>)"
      using k ok by (subst attempt_loop.simps) (simp add: try_request_def)
    finally have "ex = LoopReturn r" "n = Suc k" using loop by auto
    with executeWithConcurrencyControl_loop(2)[OF loop] calls show ?thesis by simp
  qed
  have terminal: "invocations ?E = 1 \<and> (\<exists>err. settled ?E = Inl err)"
    if first: "requestFn 0 = Rejects (ThrownError e)" and nr: "\<not> listed_retryable e" for e
  proof -
    have "attempt_loop requestFn ?m 0 None 0 (admitted st) = (LoopBreak (Some e), Suc 0, admitted st)"
      using budget first nr
      by (subst attempt_loop.simps) (simp add: try_request_def isRetryableError_listed)
    with loop have "ex = LoopBreak (Some e)" "n = 1" by auto
    with executeWithConcurrencyControl_loop(4)[OF loop] calls show ?thesis by simp
  qed
  from bound success terminal show ?thesis by blast
qed

theorem retry_budget_witness:
  "0 \<le> max_retries_of default_options
   \<and> int (invocations (executeWithConcurrencyControl unavailable_once default_options zero_stats)) \<le> 4
   \<and> settled (executeWithConcurrencyControl unavailable_once default_options zero_stats)
       = Inr \<lparr>res_data = ''ok'', res_error_code = None\<rparr>
   \<and> invocations (executeWithConcurrencyControl unavailable_once default_options zero_stats) = 2
   \<and> invocations (executeWithConcurrencyControl invalid_field default_options zero_stats) = 1"
proof -
  have m: "max_retries_of default_options = 3"
    by (simp add: max_retries_of_def default_options_def CONFIG_maxRetries_def)
  have b: "0 \<le> max_retries_of default_options" using m by simp
  have r0: "\<forall>j<Suc 0. is_retryable_failure (unavailable_once j)"
    by (simp add: is_retryable_failure_def unavailable_once_def try_request_def
        isRetryableError_def retryableStatuses_def)
  have nl: "\<not> listed_retryable (new_Error ''Invalid field'')"
    by (simp add: listed_retryable_def new_Error_def)
  note flaky = retry_budget[OF b, of unavailable_once zero_stats]
  from flaky m
  have bound: "int (invocations (executeWithConcurrencyControl unavailable_once default_options zero_stats)) \<le> 4"
    by simp
  from flaky
  have "int (Suc 0) \<le> max_retries_of default_options
        \<and> (\<forall>j<Suc 0. is_retryable_failure (unavailable_once j))
        \<and> unavailable_once (Suc 0) = Resolves \<lparr>res_data = ''ok'', res_error_code = None\<rparr>
        \<and> res_error_code \<lparr>res_data = ''ok'', res_error_code = None\<rparr> \<noteq> Some ''SSS_REQUEST_LIMIT_EXCEEDED''
      \<longrightarrow> settled (executeWithConcurrencyControl unavailable_once default_options zero_stats)
            = Inr \<lparr>res_data = ''ok'', res_error_code = None\<rparr>
          \<and> invocations (executeWithConcurrencyControl unavailable_once default_options zero_stats)
            = Suc (Suc 0)"
    by blast
  with r0 m
  have second: "settled (executeWithConcurrencyControl unavailable_once default_options zero_stats)
            = Inr \<lparr>res_data = ''ok'', res_error_code = None\<rparr>
          \<and> invocations (executeWithConcurrencyControl unavailable_once default_options zero_stats) = 2"
    by (simp add: unavailable_once_def)
  from retry_budget[OF b, of invalid_field zero_stats]
  have "invalid_field 0 = Rejects (ThrownError (new_Error ''Invalid field''))
        \<and> \<not> listed_retryable (new_Error ''Invalid field'')
      \<longrightarrow> invocations (executeWithConcurrencyControl invalid_field default_options zero_stats) = 1"
    by blast
  with nl
  have "invocations (executeWithConcurrencyControl invalid_field default_options zero_stats) = 1"
    by (simp add: invalid_field_def)
  with bound second b show ?thesis by simp
qed

subsection \<open>The retried counter\<close>

text \<open>
  C9. \<^verbatim>\<open>stats.retriedRequests\<close> grows by one exactly when the call returns a result and
  made at least two invocations; a first-attempt success, and a call that fails after any
  number of retries, leave it unchanged.
\<close>

theorem retried_counter:
  "retriedRequests (counters (executeWithConcurrencyControl requestFn options st))
     = retriedRequests st
       + (if (\<exists>r. settled (executeWithConcurrencyControl requestFn options st) = Inr r)
             \<and> 2 \<le> invocations (executeWithConcurrencyControl requestFn options st)
          then 1 else 0)"
proof -
  let ?m = "max_retries_of options"
  let ?E = "executeWithConcurrencyControl requestFn options st"
  obtain ex n st' where loop: "attempt_loop requestFn ?m 0 None 0 (admitted st) = (ex, n, st')"
    by (cases "attempt_loop requestFn ?m 0 None 0 (admitted st)") auto
  note E = executeWithConcurrencyControl_loop[OF loop]
  from attempt_loop_counters[OF loop] have st': "st' = (case ex of
       LoopReturn r \<Rightarrow>
         (admitted st)\<lparr>successfulRequests := successfulRequests (admitted st) + 1,
            activeRequests := activeRequests (admitted st) - 1,
            retriedRequests := (if 2 \<le> n then retriedRequests (admitted st) + 1
                                else retriedRequests (admitted st))\<rparr>
     | _ \<Rightarrow> admitted st)" by simp
  have adm: "retriedRequests (admitted st) = retriedRequests st"
    by (simp add: admitted_def)
  show ?thesis
  proof (cases ex)
    case (LoopReturn r)
    with E(1) E(2)[OF LoopReturn] st' adm show ?thesis by simp
  next
    case (LoopEscape t)
    with E(1) E(3)[OF LoopEscape] st' adm show ?thesis by simp
  next
    case (LoopBreak le)
    show ?thesis
    proof (cases le)
      case None
      with LoopBreak E(5) st' adm show ?thesis by simp
    next
      case (Some e)
      with LoopBreak E(4)[of e] st' adm show ?thesis by simp
    qed
  qed
qed

subsection \<open>The error after the loop\<close>

text \<open>
  C4. The claim: when the final attempt fails, the error wraps the last failure's message
  and reports the number of attempts actually made. The message is built from
  \<^verbatim>\<open>maxRetries + 1\<close>, also when the loop was left by \<^verbatim>\<open>break\<close> on a non-retryable error:
  with the default budget of 3, a request that fails once with a validation error is
  invoked once and reported as failed \<^verbatim>\<open>after 4 attempts\<close>.
\<close>

theorem attempts_misreported:
  "settled (executeWithConcurrencyControl invalid_field default_options zero_stats)
     = Inl (ThrownError (new_Error ''Request failed after 4 attempts: Invalid field''))
   \<and> invocations (executeWithConcurrencyControl invalid_field default_options zero_stats) = 1"
  by (simp add: executeWithConcurrencyControl_def attempt_loop.simps invalid_field_def
      default_options_def max_retries_of_def zero_stats_def try_request_def isRetryableError_def
      new_Error_def message_text_def CONFIG_maxRetries_def show_int_def show_nat.simps digit_char_def)

text \<open>
  When every attempt of the budget was made, the count in the message is the number of
  invocations.
\<close>

lemma exhausted_attempts_reported:
  assumes budget: "0 \<le> max_retries_of options"
    and prefix: "\<forall>j<nat (max_retries_of options). is_retryable_failure (requestFn j)"
    and final: "try_request (requestFn (nat (max_retries_of options))) = Inl (ThrownError e)"
  shows "invocations (executeWithConcurrencyControl requestFn options st) = nat (max_retries_of options) + 1
       \<and> settled (executeWithConcurrencyControl requestFn options st)
           = Inl (ThrownError (new_Error (''Request failed after ''
               @ show_int (int (invocations (executeWithConcurrencyControl requestFn options st)))
               @ '' attempts: '' @ message_text e)))"
proof -
  let ?m = "max_retries_of options"
  let ?k = "nat ?m"
  let ?E = "executeWithConcurrencyControl requestFn options st"
  obtain ex n st' where loop: "attempt_loop requestFn ?m 0 None 0 (admitted st) = (ex, n, st')"
    by (cases "attempt_loop requestFn ?m 0 None 0 (admitted st)") auto
  define le where "le = (if ?k = 0 then None else
       (case try_request (requestFn (0 + ?k - 1)) of Inl (ThrownError e) \<Rightarrow> Some e | _ \<Rightarrow> None))"
  have "attempt_loop requestFn ?m 0 None 0 (admitted st)
      = attempt_loop requestFn ?m (0 + int ?k) le (0 + ?k) (admitted st)"
    unfolding le_def using budget prefix by (intro attempt_loop_retry_prefix) auto
  also have "\<dots> = (LoopBreak (Some e), Suc ?k, admitted st)"
    using budget final by (subst attempt_loop.simps) simp
  finally have ex: "ex = LoopBreak (Some e)" and n: "n = Suc ?k" using loop by auto
  have inv: "invocations ?E = ?k + 1"
    using executeWithConcurrencyControl_loop(1)[OF loop] n by simp
  have "int (invocations ?E) = ?m + 1" using inv budget by simp
  then have "show_int (int (invocations ?E)) = show_int (?m + 1)" by (rule arg_cong)
  with executeWithConcurrencyControl_loop(4)[OF loop ex] inv show ?thesis
    by (simp only: simp_thms)
qed

section \<open>Properties of the retry delay\<close>

subsection \<open>Rounding\<close>

lemma rhe_of_int: "rhe (of_int k) = k"
  by (simp add: rhe_def)

lemma rhe_bounds: "\<lfloor>y\<rfloor> \<le> rhe y \<and> rhe y \<le> \<lfloor>y\<rfloor> + 1"
  by (simp add: rhe_def Let_def)

lemma rhe_mono: assumes "x \<le> y" shows "rhe x \<le> rhe y"
proof (cases "\<lfloor>x\<rfloor> = \<lfloor>y\<rfloor>")
  case True
  with assms have "x - of_int \<lfloor>x\<rfloor> \<le> y - of_int \<lfloor>y\<rfloor>" by simp
  with True show ?thesis by (auto simp add: rhe_def Let_def)
next
  case False
  with assms have "\<lfloor>x\<rfloor> < \<lfloor>y\<rfloor>" by (simp add: floor_mono order.strict_iff_order)
  with rhe_bounds[of x] rhe_bounds[of y] show ?thesis by linarith
qed

lemma rhe_nearest: assumes "\<bar>y - of_int k\<bar> < 1 / 2" shows "rhe y = k"
proof -
  consider "of_int k \<le> y" | "y < of_int k" by linarith
  then show ?thesis
  proof cases
    case 1
    with assms have "\<lfloor>y\<rfloor> = k" by (intro floor_unique) auto
    with assms 1 show ?thesis by (auto simp add: rhe_def Let_def)
  next
    case 2
    with assms have f: "\<lfloor>y\<rfloor> = k - 1" by (intro floor_unique) auto
    with assms 2 show ?thesis by (auto simp add: rhe_def Let_def)
  qed
qed

lemma two_powr_int: "(2::real) powr (of_int k) = 2 powi k"
  by (simp add: powr_real_of_int')

lemma binade_upper: assumes "0 < x" shows "x < 2 powi (binade x + 1)"
proof -
  have "log 2 x < of_int (\<lfloor>log 2 x\<rfloor> + 1)" by linarith
  also have "\<dots> \<le> of_int (binade x + 1)" using assms by (simp add: binade_def)
  finally have "log 2 x < of_int (binade x + 1)" .
  then have "x < 2 powr (of_int (binade x + 1))" using assms
    by (simp only: log_less_iff)
  then show ?thesis by (simp only: two_powr_int)
qed

lemma binade_lower: assumes "0 < x" "- 1022 < binade x" shows "2 powi (binade x) \<le> x"
proof -
  from assms have b: "binade x = \<lfloor>log 2 x\<rfloor>" by (auto simp add: binade_def max_def split: if_splits)
  have "of_int \<lfloor>log 2 x\<rfloor> \<le> log 2 x" by simp
  then have "2 powr (of_int (binade x)) \<le> x" using assms(1) b
    by (simp add: powr_le_iff)
  then show ?thesis by (simp add: powr_real_of_int')
qed

lemma binade_mono: assumes "0 < x" "x \<le> y" shows "binade x \<le> binade y"
proof -
  from assms have "log 2 x \<le> log 2 y" by simp
  then have "\<lfloor>log 2 x\<rfloor> \<le> \<lfloor>log 2 y\<rfloor>" by (rule floor_mono)
  with assms show ?thesis by (simp add: binade_def)
qed

lemma binade_eq:
  assumes "2 powi e \<le> x" "x < 2 powi (e + 1)" "- 1022 \<le> e"
  shows "binade x = e"
proof -
  have "(0::real) < 2 powi e" by simp
  with assms(1) have pos: "0 < x" by linarith
  have "2 powr (of_int e) \<le> x" "x < 2 powr (of_int (e + 1))"
    using assms by (simp_all only: two_powr_int)
  then have "of_int e \<le> log 2 x" "log 2 x < of_int (e + 1)"
    using pos by (simp_all only: le_log_iff log_less_iff)
  then have "\<lfloor>log 2 x\<rfloor> = e" by (intro floor_unique) auto
  with assms(3) pos show ?thesis by (simp add: binade_def)
qed

lemma powi_split: "(2::real) powi a * 2 powi b = 2 powi (a + b)"
  by (simp add: power_int_add)

lemma ulp_pos: "0 < ulp x"
  by (simp add: ulp_def)

lemma rd_0: "rd 0 = 0"
  by (simp add: rd_def)

lemma rd_eval:
  assumes "2 powi e \<le> x" "x < 2 powi (e + 1)" "- 1022 \<le> e"
    and "\<bar>x / 2 powi (e - 52) - of_int k\<bar> < 1 / 2"
  shows "rd x = 2 powi (e - 52) * of_int k"
proof -
  have "(0::real) < 2 powi e" by simp
  with assms(1) have "x \<noteq> 0" by linarith
  moreover have "ulp x = 2 powi (e - 52)" using binade_eq[OF assms(1-3)] by (simp add: ulp_def)
  ultimately show ?thesis using rhe_nearest[OF assms(4)] by (simp add: rd_def)
qed

text \<open>Rounding a positive number stays within its binade, ends included.\<close>

lemma rd_le_top: assumes "0 < x" shows "rd x \<le> 2 powi (binade x + 1)"
proof -
  have "x / ulp x \<le> 2 powi (binade x + 1) / ulp x"
    using binade_upper[OF assms] ulp_pos[of x] by (simp add: divide_le_cancel)
  also have "2 powi (binade x + 1) / ulp x = (2::real) powi 53"
    by (simp add: ulp_def power_int_diff[symmetric])
  also have "\<dots> = of_int (2 ^ 53)" by simp
  finally have "rhe (x / ulp x) \<le> rhe (of_int (2 ^ 53))" by (rule rhe_mono)
  then have "rhe (x / ulp x) \<le> 2 ^ 53" by (simp only: rhe_of_int)
  then have "of_int (rhe (x / ulp x)) \<le> (2::real) powi 53" by simp
  then have "ulp x * of_int (rhe (x / ulp x)) \<le> ulp x * 2 powi 53"
    using ulp_pos[of x] by simp
  also have "ulp x * 2 powi 53 = (2::real) powi (binade x + 1)"
    unfolding ulp_def powi_split by (simp add: add.commute)
  finally show ?thesis using assms by (simp add: rd_def)
qed

lemma rd_ge_bottom: assumes "0 < x" "- 1022 < binade x" shows "2 powi (binade x) \<le> rd x"
proof -
  have "2 powi (binade x) / ulp x \<le> x / ulp x"
    using binade_lower[OF assms] ulp_pos[of x] by (simp add: divide_le_cancel)
  moreover have "2 powi (binade x) / ulp x = (2::real) powi 52"
    by (simp add: ulp_def power_int_diff[symmetric])
  moreover have "(2::real) powi 52 = of_int (2 ^ 52)" by simp
  ultimately have "rhe (of_int (2 ^ 52)) \<le> rhe (x / ulp x)" by (metis rhe_mono)
  then have "2 ^ 52 \<le> rhe (x / ulp x)" by (simp only: rhe_of_int)
  then have "(2::real) powi 52 \<le> of_int (rhe (x / ulp x))" by simp
  then have "ulp x * 2 powi 52 \<le> ulp x * of_int (rhe (x / ulp x))"
    using ulp_pos[of x] by simp
  moreover have "ulp x * 2 powi 52 = (2::real) powi (binade x)"
    unfolding ulp_def powi_split by simp
  ultimately show ?thesis using assms by (simp add: rd_def)
qed

lemma rd_mono: assumes "0 \<le> x" "x \<le> y" shows "rd x \<le> rd y"
proof (cases "x = 0")
  case True
  show ?thesis
  proof (cases "y = 0")
    case True
    with \<open>x = 0\<close> show ?thesis by simp
  next
    case False
    with assms have "0 < y" by simp
    then have "0 \<le> y / ulp y" using ulp_pos[of y] by simp
    then have "rhe 0 \<le> rhe (y / ulp y)" by (rule rhe_mono)
    then have "0 \<le> rhe (y / ulp y)" using rhe_of_int[of 0] by simp
    then have "0 \<le> ulp y * of_int (rhe (y / ulp y))" using ulp_pos[of y] by simp
    with False True show ?thesis by (simp add: rd_def)
  qed
next
  case False
  with assms have px: "0 < x" and py: "0 < y" by auto
  from binade_mono[OF px assms(2)] consider "binade x = binade y" | "binade x < binade y" by linarith
  then show ?thesis
  proof cases
    case 1
    then have u: "ulp x = ulp y" by (simp add: ulp_def)
    from assms(2) have "x / ulp y \<le> y / ulp y" using ulp_pos[of y] by (simp add: divide_le_cancel)
    then have "rhe (x / ulp y) \<le> rhe (y / ulp y)" by (rule rhe_mono)
    then have "ulp y * of_int (rhe (x / ulp y)) \<le> ulp y * of_int (rhe (y / ulp y))"
      using ulp_pos[of y] by simp
    with u px py show ?thesis by (simp add: rd_def)
  next
    case 2
    have "- 1022 \<le> binade x" by (simp add: binade_def)
    with 2 have unclipped: "- 1022 < binade y" by simp
    have "rd x \<le> 2 powi (binade x + 1)" by (rule rd_le_top[OF px])
    also have "\<dots> \<le> (2::real) powi (binade y)" using 2 by (intro power_int_increasing) auto
    also have "\<dots> \<le> rd y" by (rule rd_ge_bottom[OF py unclipped])
    finally show ?thesis .
  qed
qed

lemma rd_int:
  assumes "0 \<le> k" "k < 2 ^ 53"
  shows "rd (of_int k) = of_int k"
proof (cases "k = 0")
  case True
  then show ?thesis by (simp add: rd_0)
next
  case False
  with assms have pos: "(0::real) < of_int k" and one: "(1::real) \<le> of_int k" by auto
  let ?e = "binade (of_int k)"
  have e0: "0 \<le> ?e"
  proof (rule ccontr)
    assume "\<not> 0 \<le> ?e"
    then have "?e + 1 \<le> 0" by simp
    then have "(2::real) powi (?e + 1) \<le> 2 powi 0" by (intro power_int_increasing) auto
    with binade_upper[OF pos] one show False by simp
  qed
  then have "- 1022 < ?e" by simp
  from binade_lower[OF pos this] have low: "(2::real) powi ?e \<le> of_int k" .
  have e52: "?e \<le> 52"
  proof (rule ccontr)
    assume "\<not> ?e \<le> 52"
    then have "53 \<le> ?e" by simp
    then have "(2::real) powi 53 \<le> 2 powi ?e" by (intro power_int_increasing) auto
    with low have "(2::real) ^ 53 \<le> of_int k" by simp
    then have "(2::int) ^ 53 \<le> k" by (metis of_int_le_iff of_int_numeral of_int_power)
    with assms(2) show False by simp
  qed
  define m where "m = nat (52 - ?e)"
  have "?e - 52 = - int m" using e52 by (simp add: m_def)
  then have u: "ulp (of_int k) = inverse (2 ^ m)"
    unfolding ulp_def by (simp add: power_int_minus)
  have "of_int k / ulp (of_int k) = of_int (k * 2 ^ m)" by (simp add: u divide_inverse)
  then have "rhe (of_int k / ulp (of_int k)) = k * 2 ^ m" by (simp only: rhe_of_int)
  with u pos show ?thesis by (simp add: rd_def)
qed

subsection \<open>The delay\<close>

lemma double_0_2_value: "double_0_2 = 3602879701896397 / 18014398509481984"
  unfolding double_0_2_def
  by (subst rd_eval[where e = "- 3" and k = 7205759403792794]) simp_all

lemma fifth_of_delay:
  "rd (1000 * double_0_2) = 200" "rd (2000 * double_0_2) = 400" "rd (4000 * double_0_2) = 800"
  "rd (8000 * double_0_2) = 1600" "rd (16000 * double_0_2) = 3200" "rd (32000 * double_0_2) = 6400"
  unfolding double_0_2_value
       apply (subst rd_eval[where e = 7 and k = "200 * 2 ^ 45"]; simp)
      apply (subst rd_eval[where e = 8 and k = "400 * 2 ^ 44"]; simp)
     apply (subst rd_eval[where e = 9 and k = "800 * 2 ^ 43"]; simp)
    apply (subst rd_eval[where e = 10 and k = "1600 * 2 ^ 42"]; simp)
   apply (subst rd_eval[where e = 11 and k = "3200 * 2 ^ 41"]; simp)
  apply (subst rd_eval[where e = 12 and k = "6400 * 2 ^ 40"]; simp)
  done

lemma computed_delay: "min (rd (CONFIG_initialRetryDelay * rd (2 ^ n))) CONFIG_maxRetryDelay = base_delay n"
proof (cases "n < 5")
  case True
  then have "n = 0 \<or> n = 1 \<or> n = 2 \<or> n = 3 \<or> n = 4" by auto
  then show ?thesis
    using rd_int[of 1] rd_int[of 2] rd_int[of 4] rd_int[of 8] rd_int[of 16]
      rd_int[of 1000] rd_int[of 2000] rd_int[of 4000] rd_int[of 8000] rd_int[of 16000]
    by (auto simp add: CONFIG_initialRetryDelay_def CONFIG_maxRetryDelay_def base_delay_def)
next
  case False
  then have "(2::real) ^ 5 \<le> 2 ^ n" by (intro power_increasing) auto
  then have big: "(32::real) \<le> 2 ^ n" by simp
  then have "rd 32 \<le> rd (2 ^ n)" by (intro rd_mono) auto
  with rd_int[of 32] have "32 \<le> rd (2 ^ n)" by simp
  then have "rd 32000 \<le> rd (1000 * rd (2 ^ n))" by (intro rd_mono) auto
  with rd_int[of 32000] have "32000 \<le> rd (1000 * rd (2 ^ n))" by simp
  with big show ?thesis
    by (simp add: CONFIG_initialRetryDelay_def CONFIG_maxRetryDelay_def base_delay_def)
qed

lemma base_delay_cases:
  "base_delay n \<in> {1000, 2000, 4000, 8000, 16000, 32000}"
proof (cases "n < 5")
  case True
  then have "n = 0 \<or> n = 1 \<or> n = 2 \<or> n = 3 \<or> n = 4" by auto
  then show ?thesis by (auto simp add: base_delay_def)
next
  case False
  then have "(2::real) ^ 5 \<le> 2 ^ n" by (intro power_increasing) auto
  then show ?thesis by (simp add: base_delay_def)
qed

lemma jitter_step:
  assumes "rd (d * double_0_2) = t" "rd t = t" "rd d = d" "rd (d + t) = d + t" "0 \<le> t" "0 \<le> d"
    and "0 \<le> r" "r < 1"
  shows "d \<le> rd (d + rd (rd (d * double_0_2) * r)) \<and> rd (d + rd (rd (d * double_0_2) * r)) \<le> d + t"
proof -
  let ?j = "rd (t * r)"
  have "0 \<le> t * r" "t * r \<le> t" using assms(5,7,8) by (simp_all add: mult_left_le)
  then have "rd 0 \<le> ?j" "?j \<le> rd t" by (auto intro: rd_mono)
  then have j: "0 \<le> ?j" "?j \<le> t" using assms(2) by (simp_all add: rd_0)
  then have "rd d \<le> rd (d + ?j)" "rd (d + ?j) \<le> rd (d + t)"
    using assms(6) by (auto intro!: rd_mono)
  with assms(1,3,4) show ?thesis by simp
qed

text \<open>
  C7, as amended. For every attempt number \<open>n\<close> and every draw \<open>r\<close> with \<open>0 \<le> r < 1\<close>, the
  computed delay lies between \<open>D\<close> and \<open>1.2 * D\<close>, both ends included, where
  \<open>D = min (1000 * 2 ^ n) 32000\<close>; so it is \<open>D + 0.2 * D * q\<close> for some \<open>q\<close> in the closed interval
  from 0 to 1.
\<close>

theorem retry_delay_bounds:
  assumes "0 \<le> r" and "r < 1"
  shows "base_delay n \<le> getRetryDelay n r
       \<and> getRetryDelay n r \<le> 1.2 * base_delay n
       \<and> (\<exists>q. 0 \<le> q \<and> q \<le> 1 \<and> getRetryDelay n r = base_delay n + 0.2 * base_delay n * q)"
proof -
  let ?d = "base_delay n"
  have g: "getRetryDelay n r = rd (?d + rd (rd (?d * double_0_2) * r))"
    by (simp add: getRetryDelay_def Let_def computed_delay)
  have bounds: "?d \<le> getRetryDelay n r \<and> getRetryDelay n r \<le> ?d + ?d / 5"
    using base_delay_cases[of n]
  proof (elim insertE emptyE)
    assume d: "?d = 1000"
    from jitter_step[of 1000 200 r] fifth_of_delay(1) rd_int[of 200] rd_int[of 1000] rd_int[of 1200] assms
    show ?thesis unfolding g d by simp
  next
    assume d: "?d = 2000"
    from jitter_step[of 2000 400 r] fifth_of_delay(2) rd_int[of 400] rd_int[of 2000] rd_int[of 2400] assms
    show ?thesis unfolding g d by simp
  next
    assume d: "?d = 4000"
    from jitter_step[of 4000 800 r] fifth_of_delay(3) rd_int[of 800] rd_int[of 4000] rd_int[of 4800] assms
    show ?thesis unfolding g d by simp
  next
    assume d: "?d = 8000"
    from jitter_step[of 8000 1600 r] fifth_of_delay(4) rd_int[of 1600] rd_int[of 8000] rd_int[of 9600] assms
    show ?thesis unfolding g d by simp
  next
    assume d: "?d = 16000"
    from jitter_step[of 16000 3200 r] fifth_of_delay(5) rd_int[of 3200] rd_int[of 16000] rd_int[of 19200] assms
    show ?thesis unfolding g d by simp
  next
    assume d: "?d = 32000"
    from jitter_step[of 32000 6400 r] fifth_of_delay(6) rd_int[of 6400] rd_int[of 32000] rd_int[of 38400] assms
    show ?thesis unfolding g d by simp
  qed
  have pos: "0 < ?d" using base_delay_cases[of n] by auto
  define q where "q = (getRetryDelay n r - ?d) / (?d / 5)"
  have "0 \<le> q" "q \<le> 1" using bounds pos by (simp_all add: q_def)
  moreover have "getRetryDelay n r = ?d + 0.2 * ?d * q" using pos by (simp add: q_def field_simps)
  ultimately have "\<exists>q. 0 \<le> q \<and> q \<le> 1 \<and> getRetryDelay n r = ?d + 0.2 * ?d * q" by blast
  with bounds show ?thesis by simp
qed

lemma largest_draw_is_double: "rd largest_draw = largest_draw"
  unfolding largest_draw_def
  by (subst rd_eval[where e = "- 1" and k = "2 ^ 53 - 1"]) simp_all

lemma delay_at_largest_draw: "getRetryDelay 0 largest_draw = 1200"
proof -
  have d: "min (rd (CONFIG_initialRetryDelay * rd (2 ^ 0))) CONFIG_maxRetryDelay = 1000"
    unfolding computed_delay by (simp add: base_delay_def)
  have j: "rd (200 * largest_draw) = 200 - 1 / 2 ^ 45"
    unfolding largest_draw_def
    by (subst rd_eval[where e = 7 and k = "200 * 2 ^ 45 - 1"]) simp_all
  have s: "rd (1000 + (200 - 1 / 2 ^ 45)) = 1200"
    by (subst rd_eval[where e = 10 and k = "1200 * 2 ^ 42"]) simp_all
  show ?thesis
    unfolding getRetryDelay_def Let_def d fifth_of_delay(1) j s ..
qed

text \<open>
  C7, as claimed: the delay is strictly less than \<open>1.2 * D\<close>. For the first retry and the
  largest draw below 1, the jitter \<open>200 * r\<close> rounds to \<open>200 - 1 / 2 ^ 45\<close> and its sum with 1000
  rounds to 1200, which is \<open>1.2 * D\<close>.
\<close>

theorem retry_delay_reaches_upper_end:
  "0 \<le> largest_draw \<and> largest_draw < 1 \<and> rd largest_draw = largest_draw
   \<and> getRetryDelay 0 largest_draw = 1200
   \<and> \<not> getRetryDelay 0 largest_draw < 1.2 * base_delay 0"
  using largest_draw_is_double delay_at_largest_draw
  by (simp add: largest_draw_def base_delay_def)

theorem retry_delay_bounds_witness:
  "(0::real) \<le> 1 / 2 \<and> (1::real) / 2 < 1
   \<and> base_delay 3 \<le> getRetryDelay 3 (1 / 2) \<and> getRetryDelay 3 (1 / 2) \<le> 1.2 * base_delay 3
   \<and> base_delay 3 = 8000"
proof -
  have a: "(0::real) \<le> 1 / 2" and b: "(1::real) / 2 < 1" by simp_all
  from retry_delay_bounds[OF a b, of 3] a b show ?thesis by (simp add: base_delay_def)
qed

section \<open>Properties of batches\<close>

lemma attempt_loop_stats_irrelevant:
  "fst (attempt_loop requestFn m a le c st) = fst (attempt_loop requestFn m a le c st2)
   \<and> fst (snd (attempt_loop requestFn m a le c st)) = fst (snd (attempt_loop requestFn m a le c st2))"
proof (induction requestFn m a le c st arbitrary: st2 rule: attempt_loop.induct)
  case (1 requestFn maxRetries attempt lastError calls st)
  show ?case
  proof (cases "attempt \<le> maxRetries")
    case False
    then have "attempt_loop requestFn maxRetries attempt lastError calls s = (LoopBreak lastError, calls, s)" for s
      by (subst attempt_loop.simps) simp
    then show ?thesis by simp
  next
    case True
    show ?thesis
    proof (cases "try_request (requestFn calls)")
      case (Inr result)
      with True have "fst (attempt_loop requestFn maxRetries attempt lastError calls s) = LoopReturn result
          \<and> fst (snd (attempt_loop requestFn maxRetries attempt lastError calls s)) = Suc calls" for s
        by (subst attempt_loop.simps, subst (2) attempt_loop.simps) simp
      then show ?thesis by simp
    next
      case (Inl t)
      show ?thesis
      proof (cases t)
        case ThrownNullish
        with Inl True have "attempt_loop requestFn maxRetries attempt lastError calls s
            = (LoopEscape (ThrownError (TypeError_reading ''undefined'' ''response'')), Suc calls, s)" for s
          by (subst attempt_loop.simps) simp
        then show ?thesis by simp
      next
        case (ThrownError error)
        show ?thesis
        proof (cases "attempt < maxRetries \<and> isRetryableError error (err_response error)")
          case retry: True
          with Inl ThrownError True have "attempt_loop requestFn maxRetries attempt lastError calls s
              = attempt_loop requestFn maxRetries (attempt + 1) (Some error) (Suc calls) s" for s
            by (subst attempt_loop.simps) simp
          with "1.IH"[OF True Inl ThrownError retry, of st2] show ?thesis by simp
        next
          case False
          with Inl ThrownError True have "attempt_loop requestFn maxRetries attempt lastError calls s
              = (LoopBreak (Some error), Suc calls, s)" for s
            by (subst attempt_loop.simps) auto
          then show ?thesis by simp
        qed
      qed
    qed
  qed
qed

lemma settled_stats_irrelevant:
  "settled (executeWithConcurrencyControl requestFn options st)
     = settled (executeWithConcurrencyControl requestFn options st2)"
proof -
  let ?m = "max_retries_of options"
  obtain ex n st' where l1: "attempt_loop requestFn ?m 0 None 0 (admitted st) = (ex, n, st')"
    by (cases "attempt_loop requestFn ?m 0 None 0 (admitted st)") auto
  obtain ex2 n2 st2' where l2: "attempt_loop requestFn ?m 0 None 0 (admitted st2) = (ex2, n2, st2')"
    by (cases "attempt_loop requestFn ?m 0 None 0 (admitted st2)") auto
  from attempt_loop_stats_irrelevant[of requestFn ?m 0 None 0 "admitted st" "admitted st2"] l1 l2
  have same: "ex2 = ex" by simp
  note E1 = executeWithConcurrencyControl_loop[OF l1]
  note E2 = executeWithConcurrencyControl_loop[OF l2]
  show ?thesis
  proof (cases ex)
    case (LoopReturn r)
    with E1(2) E2(2) same show ?thesis by simp
  next
    case (LoopEscape t)
    with E1(3) E2(3) same show ?thesis by simp
  next
    case (LoopBreak le)
    show ?thesis
    proof (cases le)
      case None
      with LoopBreak E1(5) E2(5) same show ?thesis by simp
    next
      case (Some e)
      with LoopBreak E1(4)[of e] E2(4)[of e] same show ?thesis by (simp only:)
    qed
  qed
qed

lemma batch_item_promise_quiet:
  assumes "quiet options" "\<not> failFast options" "outcome \<noteq> Inl ThrownNullish"
  shows "fst (batch_item_promise options len index outcome completed)
           = Fulfilled (case outcome of
                          Inr result \<Rightarrow> ItemSuccess result index
                        | Inl error \<Rightarrow>
                            ItemFailure ''BATCH_ITEM_FAILED''
                              (case error of ThrownError e \<Rightarrow> err_message e | ThrownNullish \<Rightarrow> None) index)"
proof -
  from assms(1) have silent: "notify options p = None" for p
    by (auto simp add: quiet_def notify_def split: option.splits)
  show ?thesis
  proof (cases outcome)
    case (Inr result)
    then show ?thesis by (simp add: batch_item_promise_def silent)
  next
    case (Inl error)
    with assms(3) obtain e where "error = ThrownError e" by (cases error) auto
    with Inl assms(2) show ?thesis
      by (simp add: batch_item_promise_def batch_item_catch_def silent)
  qed
qed

lemma run_item_quiet:
  assumes "quiet options" "\<not> failFast options" "reported requestFns s"
  shows "reported requestFns (run_item requestFns options index s)"
    and "bs_promises s j \<noteq> None \<Longrightarrow> bs_promises (run_item requestFns options index s) j = bs_promises s j"
    and "index < length requestFns \<Longrightarrow> bs_promises (run_item requestFns options index s) index \<noteq> None"
proof -
  let ?e = "executeWithConcurrencyControl (requestFns ! index) \<lparr>opt_maxRetries = None\<rparr> (bs_stats s)"
  have rep: "fst (batch_item_promise options (length requestFns) index (settled ?e) (bs_completed s))
               = Fulfilled (item_report (requestFns ! index) index)"
    unfolding item_report_def
    by (subst batch_item_promise_quiet[OF assms(1,2) executeWithConcurrencyControl_throws_error])
       (simp add: settled_stats_irrelevant[of _ _ "bs_stats s" zero_stats])
  show "reported requestFns (run_item requestFns options index s)"
    using assms(3) rep
    by (auto simp add: reported_def run_item_def Let_def split: prod.splits)
  show "bs_promises s j \<noteq> None \<Longrightarrow> bs_promises (run_item requestFns options index s) j = bs_promises s j"
    by (auto simp add: run_item_def Let_def split: prod.splits)
  show "index < length requestFns \<Longrightarrow> bs_promises (run_item requestFns options index s) index \<noteq> None"
    by (auto simp add: run_item_def Let_def split: prod.splits)
qed

lemma fold_run_item_quiet:
  assumes "quiet options" "\<not> failFast options"
  shows "reported requestFns s \<Longrightarrow>
         reported requestFns (fold (run_item requestFns options) completion s)
         \<and> (\<forall>j. (bs_promises s j \<noteq> None \<or> (j \<in> set completion \<and> j < length requestFns))
               \<longrightarrow> bs_promises (fold (run_item requestFns options) completion s) j \<noteq> None)"
proof (induction completion arbitrary: s)
  case Nil
  then show ?case by simp
next
  case (Cons i completion)
  let ?s1 = "run_item requestFns options i s"
  note step = run_item_quiet[OF assms Cons.prems, where index = i]
  from Cons.IH[OF step(1)]
  have rep: "reported requestFns (fold (run_item requestFns options) completion ?s1)"
    and keep: "\<And>j. bs_promises ?s1 j \<noteq> None \<or> (j \<in> set completion \<and> j < length requestFns)
                 \<Longrightarrow> bs_promises (fold (run_item requestFns options) completion ?s1) j \<noteq> None"
    by blast+
  have "bs_promises (fold (run_item requestFns options) completion ?s1) j \<noteq> None"
    if "bs_promises s j \<noteq> None \<or> (j \<in> set (i # completion) \<and> j < length requestFns)" for j
  proof (rule keep)
    from that consider "bs_promises s j \<noteq> None" | "j = i" "j < length requestFns"
      | "j \<in> set completion" "j < length requestFns" by auto
    then show "bs_promises ?s1 j \<noteq> None \<or> (j \<in> set completion \<and> j < length requestFns)"
    proof cases
      case 1
      with step(2)[OF 1] show ?thesis by simp
    next
      case 2
      with step(3) show ?thesis by simp
    next
      case 3
      then show ?thesis by simp
    qed
  qed
  with rep show ?case by simp
qed

lemma all_some_map:
  "(\<And>i. i \<in> set xs \<Longrightarrow> f i = Some (g i)) \<Longrightarrow> all_some (map f xs) = Some (map g xs)"
  by (induction xs) auto

text \<open>
  C8, as amended. Without \<^verbatim>\<open>failFast\<close>, and with no progress callback or one that does not
  throw, when every operation completes, in whatever order, the batch resolves to an array with
  one fulfilled entry per operation, in index order; the entry of operation \<open>i\<close> is its own
  report: its success value, or the tagged failure carrying its message and its index. It
  depends on no other operation of the batch.
\<close>

theorem batch_reports_every_item:
  assumes "\<not> failFast options"
    and "quiet options"
    and "{0..<length requestFns} \<subseteq> set completion"
  shows "fst (executeBatch requestFns options completion st)
           = AllSettled (map (\<lambda>i. Fulfilled (item_report (requestFns ! i) i)) [0..<length requestFns])"
proof -
  let ?init = "\<lparr>bs_completed = 0, bs_promises = (\<lambda>i. None), bs_first_rejection = None, bs_stats = st\<rparr>
               :: 'a batch_state"
  let ?s = "fold (run_item requestFns options) completion ?init"
  have "reported requestFns ?init" by (simp add: reported_def)
  from fold_run_item_quiet[OF assms(2,1) this, of completion]
  have rep: "reported requestFns ?s"
    and finished: "\<And>j. j \<in> set completion \<Longrightarrow> j < length requestFns \<Longrightarrow> bs_promises ?s j \<noteq> None"
    by blast+
  have "bs_promises ?s i = Some (Fulfilled (item_report (requestFns ! i) i))"
    if "i \<in> set [0..<length requestFns]" for i
  proof -
    from that assms(3) have "i \<in> set completion" "i < length requestFns" by auto
    from rep have "bs_promises ?s i = None
        \<or> bs_promises ?s i = Some (Fulfilled (item_report (requestFns ! i) i))"
      unfolding reported_def by (rule spec)
    moreover note finished[OF \<open>i \<in> set completion\<close> \<open>i < length requestFns\<close>]
    ultimately show ?thesis by (elim disjE) simp_all
  qed
  then have "all_some (map (bs_promises ?s) [0..<length requestFns])
      = Some (map (\<lambda>i. Fulfilled (item_report (requestFns ! i) i)) [0..<length requestFns])"
    by (rule all_some_map)
  with assms(1) show ?thesis
    by (simp add: executeBatch_def Let_def)
qed

theorem batch_reports_every_item_witness:
  "\<not> failFast collect_all \<and> quiet collect_all
   \<and> {0..<length [invalid_field, unavailable_once]} \<subseteq> set [1, 0]
   \<and> fst (executeBatch [invalid_field, unavailable_once] collect_all [1, 0] zero_stats)
       = AllSettled
           [Fulfilled (ItemFailure ''BATCH_ITEM_FAILED''
                         (Some ''Request failed after 4 attempts: Invalid field'') 0),
            Fulfilled (ItemSuccess \<lparr>res_data = ''ok'', res_error_code = None\<rparr> 1)]"
proof -
  have a: "\<not> failFast collect_all" and b: "quiet collect_all"
    by (simp_all add: collect_all_def quiet_def)
  have c: "{0..<length [invalid_field, unavailable_once :: nat \<Rightarrow> string settlement]} \<subseteq> set [1, 0]"
    by auto
  have r0: "item_report (invalid_field :: nat \<Rightarrow> string settlement) 0
      = ItemFailure ''BATCH_ITEM_FAILED'' (Some ''Request failed after 4 attempts: Invalid field'') 0"
    by (simp add: item_report_def executeWithConcurrencyControl_def attempt_loop.simps
        invalid_field_def max_retries_of_def zero_stats_def try_request_def isRetryableError_def
        new_Error_def message_text_def CONFIG_maxRetries_def show_int_def show_nat.simps digit_char_def)
  have r1: "item_report unavailable_once 1 = ItemSuccess \<lparr>res_data = ''ok'', res_error_code = None\<rparr> 1"
    by (simp add: item_report_def executeWithConcurrencyControl_def attempt_loop.simps
        unavailable_once_def max_retries_of_def zero_stats_def try_request_def isRetryableError_def
        retryableStatuses_def CONFIG_maxRetries_def)
  have "fst (executeBatch [invalid_field, unavailable_once] collect_all [1, 0] zero_stats)
      = AllSettled (map (\<lambda>i. Fulfilled (item_report ([invalid_field, unavailable_once] ! i) i))
          [0..<length [invalid_field, unavailable_once :: nat \<Rightarrow> string settlement]])"
    by (rule batch_reports_every_item[OF a b c])
  also have "map (\<lambda>i. Fulfilled (item_report ([invalid_field, unavailable_once] ! i) i))
          [0..<length [invalid_field, unavailable_once :: nat \<Rightarrow> string settlement]]
      = [Fulfilled (item_report invalid_field 0), Fulfilled (item_report unavailable_once 1)]"
    by simp
  finally show ?thesis using a b c by (simp only: r0 r1 simp_thms)
qed

text \<open>
  C8, as claimed: without \<^verbatim>\<open>failFast\<close> the returned array reports, for every operation, its
  success value or a tagged failure carrying its index. The progress callback runs inside
  the \<^verbatim>\<open>try\<close> of the item, and again inside its \<^verbatim>\<open>catch\<close>. For the batch of the one operation
  that resolves at once: with a callback that throws when it is told of a success, the
  operation is reported as \<^verbatim>\<open>BATCH_ITEM_FAILED\<close>, with the callback's message; with a callback
  that always throws, the entry is a rejection, which carries neither a success value nor
  a tagged failure nor the index.
\<close>

theorem throwing_progress_hides_report:
  "\<not> failFast progress_throws_on_success \<and> \<not> failFast progress_throws
   \<and> settled (executeWithConcurrencyControl always_ok \<lparr>opt_maxRetries = None\<rparr> zero_stats)
       = Inr \<lparr>res_data = ''ok'', res_error_code = None\<rparr>
   \<and> item_report always_ok 0 = ItemSuccess \<lparr>res_data = ''ok'', res_error_code = None\<rparr> 0
   \<and> fst (executeBatch [always_ok] progress_throws_on_success [0] zero_stats)
       = AllSettled [Fulfilled (ItemFailure ''BATCH_ITEM_FAILED'' (Some ''progress failed'') 0)]
   \<and> fst (executeBatch [always_ok] progress_throws [0] zero_stats)
       = AllSettled [Rejected (ThrownError (new_Error ''progress failed''))]"
  by (simp add: executeBatch_def run_item_def batch_item_promise_def batch_item_catch_def notify_def
      item_report_def executeWithConcurrencyControl_def attempt_loop.simps try_request_def
      max_retries_of_def CONFIG_maxRetries_def zero_stats_def always_ok_def
      progress_throws_on_success_def progress_throws_def new_Error_def Let_def)

section \<open>Properties of the credential manager\<close>

lemma exchange_frame:
  "tokenCache (snd (exchangeJWTForToken w)) = tokenCache w"
  "clock (snd (exchangeJWTForToken w)) = clock w"
  "clock_reads (snd (exchangeJWTForToken w)) = clock_reads w"
  by (auto simp add: exchangeJWTForToken_def Let_def
      split: sum.splits fetch_outcome.splits option.splits)

lemma exchange_refused_fails:
  assumes "can_sign w" "exchange_refused w"
  shows "\<exists>err. fst (exchangeJWTForToken w) = Inl err"
  using assms
  by (auto simp add: exchangeJWTForToken_def can_sign_def exchange_refused_def
      generateClientAssertion_def Let_def
      split: sum.splits fetch_outcome.splits option.splits)

lemma exchange_grants_succeeds:
  assumes "can_sign w" "exchange_grants w d"
  shows "fst (exchangeJWTForToken w) = Inr d"
    and "sent (snd (exchangeJWTForToken w)) = Suc (sent w)"
  using assms
  by (auto simp add: exchangeJWTForToken_def can_sign_def exchange_grants_def sent_def
      generateClientAssertion_def Let_def
      split: sum.splits fetch_outcome.splits option.splits)

lemma exchange_success_sent:
  "fst (exchangeJWTForToken w) = Inr d \<Longrightarrow> sent (snd (exchangeJWTForToken w)) = Suc (sent w)"
  by (auto simp add: exchangeJWTForToken_def sent_def Let_def
      split: sum.splits fetch_outcome.splits option.splits if_splits)

lemma after_clock_read:
  "can_sign (snd (date_now w)) = can_sign w"
  "exchange_refused (snd (date_now w)) = exchange_refused w"
  "exchange_grants (snd (date_now w)) d = exchange_grants w d"
  "tokenCache (snd (date_now w)) = tokenCache w"
  "sent (snd (date_now w)) = sent w"
  "clock (snd (date_now w)) = clock w"
  "clock_reads (snd (date_now w)) = Suc (clock_reads w)"
  "fst (date_now w) = clock w (clock_reads w)"
  by (auto simp add: date_now_def can_sign_def exchange_refused_def exchange_grants_def sent_def
      generateClientAssertion_def split: sum.splits)

lemma before_exchange_simps:
  "can_sign (before_exchange w) = can_sign w"
  "exchange_refused (before_exchange w) = exchange_refused w"
  "exchange_grants (before_exchange w) d = exchange_grants w d"
  "tokenCache (before_exchange w) = tokenCache w"
  "sent (before_exchange w) = sent w"
  "clock (before_exchange w) = clock w"
  "clock_reads (before_exchange w)
     = (case tokenCache w ''access_token'' of None \<Rightarrow> clock_reads w | Some c \<Rightarrow> Suc (clock_reads w))"
  by (simp_all add: before_exchange_def after_clock_read split: option.splits)

lemma getAccessToken_hit:
  assumes "cache_hit w"
  shows "\<exists>c. tokenCache w ''access_token'' = Some c
            \<and> getAccessToken w = (Inr (token c), snd (date_now w))"
  using assms
  by (auto simp add: cache_hit_def getAccessToken_def Let_def date_now_def split: option.splits)

lemma getAccessToken_miss:
  assumes "\<not> cache_hit w"
  shows "getAccessToken w =
     (case exchangeJWTForToken (before_exchange w) of
        (Inl t, w2) \<Rightarrow> (Inl t, w2)
      | (Inr d, w2) \<Rightarrow>
          (Inr (access_token d),
           (snd (date_now w2))\<lparr>tokenCache := (tokenCache w2)(''access_token'' \<mapsto>
              \<lparr>token = access_token d,
               expiresAt = map_option (\<lambda>s. fst (date_now w2) + s * 1000) (expires_in d)\<rparr>)\<rparr>))"
  using assms
  by (auto simp add: cache_hit_def getAccessToken_def Let_def before_exchange_def date_now_def
      split: option.splits prod.splits sum.splits)

lemma expired_misses:
  "tokenCache w ''access_token'' = Some c \<Longrightarrow> expiresAt c = Some e
     \<Longrightarrow> e \<le> clock w (clock_reads w) \<Longrightarrow> \<not> cache_hit w"
  by (simp add: cache_hit_def fresh_at_def)

lemma getAccessToken_success_after_miss:
  assumes miss: "\<not> cache_hit w" and ok: "fst (getAccessToken w) = Inr t"
  shows "sent (snd (getAccessToken w)) = Suc (sent w)"
    and "\<exists>e. tokenCache (snd (getAccessToken w)) ''access_token'' = Some \<lparr>token = t, expiresAt = e\<rparr>"
proof -
  obtain r w2 where ex: "exchangeJWTForToken (before_exchange w) = (r, w2)"
    by (cases "exchangeJWTForToken (before_exchange w)") auto
  with ok getAccessToken_miss[OF miss] obtain d where d: "r = Inr d" "t = access_token d"
    by (cases r) auto
  from exchange_success_sent[of "before_exchange w" d] ex d
  have "sent w2 = Suc (sent w)" by (simp add: before_exchange_simps)
  with ex d getAccessToken_miss[OF miss]
  show "sent (snd (getAccessToken w)) = Suc (sent w)"
    by (simp add: sent_def date_now_def)
  from ex d getAccessToken_miss[OF miss]
  show "\<exists>e. tokenCache (snd (getAccessToken w)) ''access_token'' = Some \<lparr>token = t, expiresAt = e\<rparr>"
    by simp
qed

text \<open>
  C3. A call that finds a cached token whose \<open>expiresAt\<close> exceeds the clock's reading by
  more than 300 seconds returns that token and changes nothing but the count of clock
  readings: no request is sent and the cache is as before. Hence of two calls, the first
  refreshing and the second falling within the margin of what the first cached, exactly
  one exchange is sent and the second returns the first's token. A call that finds no such
  token (none, or one past its margin or its expiry) and whose exchange is granted sends
  one request, returns the new token and replaces the cache entry with it, expiring
  \<^verbatim>\<open>expires_in\<close> seconds after the clock's reading.
\<close>

theorem token_cache_reuse:
  "(cache_hit w \<longrightarrow>
      (\<exists>c. tokenCache w ''access_token'' = Some c \<and> fst (getAccessToken w) = Inr (token c))
      \<and> snd (getAccessToken w) = w\<lparr>clock_reads := Suc (clock_reads w)\<rparr>
      \<and> sent (snd (getAccessToken w)) = sent w
      \<and> tokenCache (snd (getAccessToken w)) = tokenCache w)
   \<and> (\<not> cache_hit w \<and> fst (getAccessToken w) = Inr t \<and> cache_hit (snd (getAccessToken w)) \<longrightarrow>
        fst (getAccessToken (snd (getAccessToken w))) = Inr t
        \<and> sent (snd (getAccessToken (snd (getAccessToken w)))) = Suc (sent w)
        \<and> tokenCache (snd (getAccessToken (snd (getAccessToken w)))) = tokenCache (snd (getAccessToken w)))
   \<and> (\<not> cache_hit w \<and> can_sign w \<and> exchange_grants w d \<longrightarrow>
        fst (getAccessToken w) = Inr (access_token d)
        \<and> sent (snd (getAccessToken w)) = Suc (sent w)
        \<and> (\<exists>now. tokenCache (snd (getAccessToken w)) ''access_token''
               = Some \<lparr>token = access_token d,
                       expiresAt = map_option (\<lambda>s. now + s * 1000) (expires_in d)\<rparr>))"
proof -
  have hit: "(\<exists>c. tokenCache v ''access_token'' = Some c \<and> fst (getAccessToken v) = Inr (token c))
      \<and> snd (getAccessToken v) = v\<lparr>clock_reads := Suc (clock_reads v)\<rparr>
      \<and> sent (snd (getAccessToken v)) = sent v
      \<and> tokenCache (snd (getAccessToken v)) = tokenCache v" if "cache_hit v" for v
    using getAccessToken_hit[OF that] by (auto simp add: date_now_def sent_def)
  have pair: "fst (getAccessToken (snd (getAccessToken w))) = Inr t
        \<and> sent (snd (getAccessToken (snd (getAccessToken w)))) = Suc (sent w)
        \<and> tokenCache (snd (getAccessToken (snd (getAccessToken w)))) = tokenCache (snd (getAccessToken w))"
    if miss: "\<not> cache_hit w" and ok: "fst (getAccessToken w) = Inr t"
      and again: "cache_hit (snd (getAccessToken w))"
  proof -
    from getAccessToken_success_after_miss[OF miss ok]
    obtain e where one: "sent (snd (getAccessToken w)) = Suc (sent w)"
      and entry: "tokenCache (snd (getAccessToken w)) ''access_token'' = Some \<lparr>token = t, expiresAt = e\<rparr>"
      by blast
    from hit[OF again] entry one show ?thesis by auto
  qed
  have refresh: "fst (getAccessToken w) = Inr (access_token d)
        \<and> sent (snd (getAccessToken w)) = Suc (sent w)
        \<and> (\<exists>now. tokenCache (snd (getAccessToken w)) ''access_token''
               = Some \<lparr>token = access_token d,
                       expiresAt = map_option (\<lambda>s. now + s * 1000) (expires_in d)\<rparr>)"
    if miss: "\<not> cache_hit w" and sign: "can_sign w" and grant: "exchange_grants w d"
  proof -
    obtain r w2 where ex: "exchangeJWTForToken (before_exchange w) = (r, w2)"
      by (cases "exchangeJWTForToken (before_exchange w)") auto
    from exchange_grants_succeeds[of "before_exchange w" d] sign grant ex
    have r: "r = Inr d" and s: "sent w2 = Suc (sent w)"
      by (simp_all add: before_exchange_simps)
    from ex r s getAccessToken_miss[OF miss] show ?thesis
      by (auto simp add: sent_def date_now_def)
  qed
  from hit[of w] pair refresh show ?thesis by blast
qed

lemma complete_env_config:
  "getOAuthConfig complete_env
     = Inr \<lparr>accountId = ''1234567'', clientId = ''client'', certId = ''cert'', privateKey = ''key'',
            tokenEndpoint = ''https://1234567.suitetalk.api.netsuite.com/services/rest/auth/oauth2/v1/token'',
            scope = ''rest_webservices restlets''\<rparr>"
  by (simp add: getOAuthConfig_def complete_env_def env_text_def)

lemma cold_process_first_call:
  "getAccessToken cold_process
     = (Inr (Str ''token-1''),
        cold_process\<lparr>clock_reads := 1,
          requests := [\<lparr>req_url = ''https://1234567.suitetalk.api.netsuite.com/services/rest/auth/oauth2/v1/token'',
                        req_grant_type = ''client_credentials'',
                        req_client_assertion_type = ''urn:ietf:params:oauth:client-assertion-type:jwt-bearer'',
                        req_client_assertion = ''assertion'',
                        req_scope = ''rest_webservices restlets''\<rparr>],
          tokenCache := (\<lambda>k. None)(''access_token'' \<mapsto> \<lparr>token = Str ''token-1'', expiresAt = Some 3600000\<rparr>)\<rparr>)"
  by (simp add: getAccessToken_def exchangeJWTForToken_def generateClientAssertion_def
      complete_env_config cold_process_def granted_def resp_ok_def date_now_def)

theorem token_cache_reuse_witness:
  "\<not> cache_hit cold_process \<and> can_sign cold_process \<and> exchange_grants cold_process granted
   \<and> fst (getAccessToken cold_process) = Inr (Str ''token-1'')
   \<and> cache_hit (snd (getAccessToken cold_process))
   \<and> fst (getAccessToken (snd (getAccessToken cold_process))) = Inr (Str ''token-1'')
   \<and> sent (snd (getAccessToken (snd (getAccessToken cold_process)))) = 1
   \<and> sent (snd (getAccessToken cold_process)) = 1"
proof -
  have miss: "\<not> cache_hit cold_process"
    by (simp add: cache_hit_def cold_process_def)
  have sign: "can_sign cold_process"
    by (simp add: can_sign_def generateClientAssertion_def complete_env_config cold_process_def)
  have grant: "exchange_grants cold_process granted"
    by (simp add: exchange_grants_def cold_process_def resp_ok_def granted_def)
  have first: "fst (getAccessToken cold_process) = Inr (Str ''token-1'')"
    by (simp add: cold_process_first_call)
  have again: "cache_hit (snd (getAccessToken cold_process))"
    unfolding cold_process_first_call snd_conv
    by (simp add: cache_hit_def fresh_at_def cold_process_def)
  have zero: "sent cold_process = 0"
    by (simp add: sent_def cold_process_def)
  from token_cache_reuse[of cold_process "Str ''token-1''" granted] miss sign grant first again zero
  show ?thesis by simp
qed

lemma getAccessToken_failure_keeps_cache:
  "fst (getAccessToken w) = Inl err \<Longrightarrow> tokenCache (snd (getAccessToken w)) = tokenCache w"
proof (cases "cache_hit w")
  case True
  assume "fst (getAccessToken w) = Inl err"
  with getAccessToken_hit[OF True] show ?thesis by auto
next
  case False
  assume failed: "fst (getAccessToken w) = Inl err"
  obtain r w2 where ex: "exchangeJWTForToken (before_exchange w) = (r, w2)"
    by (cases "exchangeJWTForToken (before_exchange w)") auto
  with failed getAccessToken_miss[OF False] obtain t where "r = Inl t" by (cases r) auto
  with ex getAccessToken_miss[OF False] exchange_frame(1)[of "before_exchange w"]
  show ?thesis by (simp add: before_exchange_simps)
qed

text \<open>
  C6, as amended. When the call has to refresh (no cached token, or one within 300
  seconds of its \<open>expiresAt\<close>, expired or not) and the endpoint refuses the exchange
  (a response that is not 2xx, or a body without \<^verbatim>\<open>access_token\<close>), the call fails with an
  error and the cache is exactly as before. The cached token is kept but not returned.
\<close>

theorem failed_exchange_keeps_cache:
  assumes "\<not> cache_hit w" and "can_sign w" and "exchange_refused w"
  shows "(\<exists>err. fst (getAccessToken w) = Inl err)
       \<and> tokenCache (snd (getAccessToken w)) = tokenCache w"
proof -
  obtain r w2 where ex: "exchangeJWTForToken (before_exchange w) = (r, w2)"
    by (cases "exchangeJWTForToken (before_exchange w)") auto
  from exchange_refused_fails[of "before_exchange w"] assms(2,3) ex
  obtain t where "r = Inl t" by (auto simp add: before_exchange_simps)
  with ex getAccessToken_miss[OF assms(1)] have "fst (getAccessToken w) = Inl t" by simp
  with getAccessToken_failure_keeps_cache[of w t] show ?thesis by blast
qed

theorem failed_exchange_keeps_cache_witness:
  "\<not> cache_hit stale_process \<and> can_sign stale_process \<and> exchange_refused stale_process
   \<and> (\<exists>err. fst (getAccessToken stale_process) = Inl err)
   \<and> tokenCache (snd (getAccessToken stale_process)) ''access_token''
        = Some \<lparr>token = Str ''token-0'', expiresAt = Some 100000\<rparr>"
proof -
  have miss: "\<not> cache_hit stale_process"
    by (simp add: cache_hit_def fresh_at_def stale_process_def)
  have sign: "can_sign stale_process"
    by (simp add: can_sign_def generateClientAssertion_def complete_env_config stale_process_def)
  have refused: "exchange_refused stale_process"
    by (simp add: exchange_refused_def stale_process_def resp_ok_def)
  have "tokenCache stale_process ''access_token'' = Some \<lparr>token = Str ''token-0'', expiresAt = Some 100000\<rparr>"
    by (simp add: stale_process_def)
  with failed_exchange_keeps_cache[OF miss sign refused] miss sign refused show ?thesis by simp
qed

text \<open>
  C6, as claimed: a cached token within the safety margin but not yet expired remains
  usable until its expiry. At the first clock reading (0 ms) the cached token expires at
  100000 ms; the endpoint answers 500. The call does not return the cached token: it
  fails with the exchange's error.
\<close>

theorem stale_token_not_returned:
  "tokenCache stale_process ''access_token'' = Some \<lparr>token = Str ''token-0'', expiresAt = Some 100000\<rparr>
   \<and> clock stale_process (clock_reads stale_process) < 100000
   \<and> fst (getAccessToken stale_process)
       = Inl (ThrownError (new_Error ''OAuth token exchange failed: 500 - Internal Server Error''))
   \<and> fst (getAccessToken stale_process) \<noteq> Inr (Str ''token-0'')"
  by (simp add: getAccessToken_def exchangeJWTForToken_def generateClientAssertion_def
      complete_env_config stale_process_def resp_ok_def date_now_def fresh_at_def
      show_int_def show_nat.simps digit_char_def)

section \<open>Properties of the composite RESTlet\<close>

subsection \<open>What the scripts change\<close>

lemma quietly_refl: "quietly w w"
  by (simp add: quietly_def)

lemma quietly_trans: "quietly w w1 \<Longrightarrow> quietly w1 w2 \<Longrightarrow> quietly w w2"
  by (auto simp add: quietly_def)

lemma quietly_append:
  "quietly w w' \<Longrightarrow>
     \<exists>es cs. execution_log w' = execution_log w @ es \<and> (LogError, ''Rollback Failed'') \<notin> set es
       \<and> api_trace w' = api_trace w @ cs \<and> \<not> list_ex (\<lambda>c. is_delete (fst c)) cs"
  by (auto simp add: quietly_def)

lemma no_delete_no_failure:
  "\<not> list_ex (\<lambda>c. is_delete (fst c)) cs \<Longrightarrow> \<not> delete_failed_in cs i"
  by (induction cs) (auto simp add: delete_failed_in_def)

lemma delete_failed_in_append:
  "delete_failed_in (cs @ ds) i = (delete_failed_in cs i \<or> delete_failed_in ds i)"
  by (simp add: delete_failed_in_def)

lemma unchanged_refl: "unchanged w w"
  by (simp add: unchanged_def quietly_refl)

lemma unchanged_trans: "unchanged w w1 \<Longrightarrow> unchanged w1 w2 \<Longrightarrow> unchanged w w2"
  by (auto simp add: unchanged_def intro: quietly_trans)

lemma keeps_returns: "keeps (returns x)"
  by (simp add: keeps_def returns_def unchanged_refl)

lemma keeps_api_call: "\<not> is_delete what \<Longrightarrow> keeps (api_call what)"
  by (simp add: keeps_def api_call_def unchanged_def quietly_def)

lemma keeps_write_log: "(level, title) \<noteq> (LogError, ''Rollback Failed'') \<Longrightarrow> keeps (write_log level title)"
  by (auto simp add: keeps_def write_log_def unchanged_def quietly_def)

lemma keeps_and_then:
  assumes "keeps m" and "\<And>x. keeps (f x)"
  shows "keeps (and_then m f)"
  unfolding keeps_def
proof
  fix w
  obtain r w1 where m: "m w = (r, w1)" by (cases "m w") auto
  from assms(1) m have u1: "unchanged w w1" by (auto simp add: keeps_def dest: spec[of _ w])
  show "unchanged w (snd (and_then m f w))"
  proof (cases r)
    case (Inl e)
    with m u1 show ?thesis by (simp add: and_then_def)
  next
    case (Inr x)
    from assms(2)[of x] have "unchanged w1 (snd (f x w1))" by (simp add: keeps_def)
    with u1 have "unchanged w (snd (f x w1))" by (rule unchanged_trans)
    with m Inr show ?thesis by (simp add: and_then_def)
  qed
qed

lemma keeps_catching:
  assumes "keeps m" and "\<And>e. keeps (h e)"
  shows "keeps (catching m h)"
  unfolding keeps_def
proof
  fix w
  obtain r w1 where m: "m w = (r, w1)" by (cases "m w") auto
  from assms(1) m have u1: "unchanged w w1" by (auto simp add: keeps_def dest: spec[of _ w])
  show "unchanged w (snd (catching m h w))"
  proof (cases r)
    case (Inr x)
    with m u1 show ?thesis by (simp add: catching_def)
  next
    case (Inl e)
    from assms(2)[of e] have "unchanged w1 (snd (h e w1))" by (simp add: keeps_def)
    with u1 have "unchanged w (snd (h e w1))" by (rule unchanged_trans)
    with m Inl show ?thesis by (simp add: catching_def)
  qed
qed

lemma builds_returns: "P r \<Longrightarrow> builds P (returns r)"
  by (simp add: builds_def keeps_returns) (simp add: returns_def)

lemma builds_record_create: "builds (shaped ty {}) (record_create ty)"
  unfolding builds_def
  by (auto simp add: record_create_def intro!: keeps_and_then keeps_api_call keeps_returns)
     (auto simp add: and_then_def returns_def api_call_def shaped_def split: option.splits)

lemma builds_setValue:
  assumes "shaped ty req r" and "req' \<subseteq> insert (fieldId, v) req"
  shows "builds (shaped ty req') (setValue r fieldId v)"
  unfolding builds_def
proof (intro conjI allI impI)
  show "keeps (setValue r fieldId v)"
    unfolding setValue_def by (intro keeps_and_then keeps_api_call keeps_returns) simp
next
  fix w r'
  assume "fst (setValue r fieldId v w) = Inr r'"
  then have r': "r' = r\<lparr>rec_fields := rec_fields r @ [(fieldId, v)]\<rparr>"
    by (auto simp add: setValue_def and_then_def returns_def api_call_def split: option.splits)
  from assms have "req' \<subseteq> insert (fieldId, v) (set (rec_fields r))"
    by (auto simp add: shaped_def)
  with assms(1) r' show "shaped ty req' r'" by (simp add: shaped_def)
qed

lemma builds_setText:
  assumes "shaped ty req r"
  shows "builds (shaped ty req) (setText r fieldId v)"
  unfolding builds_def
  using assms
  by (auto simp add: setText_def intro!: keeps_and_then keeps_api_call keeps_returns)
     (auto simp add: and_then_def returns_def api_call_def shaped_def split: option.splits)

lemma builds_guarded:
  assumes "P r" and "builds P m" and "title \<noteq> ''Rollback Failed''"
  shows "builds P (guarded r m title)"
  unfolding builds_def
proof (intro conjI allI impI)
  from assms(2,3) show "keeps (guarded r m title)"
    unfolding guarded_def
    by (intro keeps_catching keeps_and_then keeps_write_log keeps_returns) (simp_all add: builds_def)
next
  fix w r'
  assume "fst (guarded r m title w) = Inr r'"
  with assms(1,2) show "P r'"
    by (auto simp add: guarded_def catching_def and_then_def write_log_def returns_def builds_def
        split: prod.splits sum.splits dest: spec[of _ w])
qed

lemma keeps_parseDate: "keeps (parseDate v)"
  unfolding parseDate_def format_parse_def
  by (auto intro!: keeps_catching keeps_and_then keeps_write_log keeps_returns keeps_api_call)

lemma builds_set_date:
  assumes "shaped ty req r"
  shows "builds (shaped ty req) (set_date r fieldId v)"
proof (cases "truthy v")
  case False
  with assms show ?thesis by (simp add: set_date_def builds_returns)
next
  case True
  have k: "keeps (and_then (parseDate v) (\<lambda>d. case d of None \<Rightarrow> returns r | Some x \<Rightarrow> setValue r fieldId x))"
  proof (intro keeps_and_then keeps_parseDate)
    fix d
    show "keeps (case d of None \<Rightarrow> returns r | Some x \<Rightarrow> setValue r fieldId x)"
      using builds_setValue[OF assms subset_insertI] 
      by (cases d) (auto simp add: keeps_returns builds_def)
  qed
  have "shaped ty req r'"
    if "fst (and_then (parseDate v) (\<lambda>d. case d of None \<Rightarrow> returns r | Some x \<Rightarrow> setValue r fieldId x) w) = Inr r'"
    for w r'
  proof -
    obtain d w1 where p: "parseDate v w = (d, w1)" by (cases "parseDate v w") auto
    show ?thesis
    proof (cases d)
      case (Inl e)
      with p that show ?thesis by (simp add: and_then_def)
    next
      case (Inr od)
      show ?thesis
      proof (cases od)
        case None
        with Inr p that assms show ?thesis by (simp add: and_then_def returns_def)
      next
        case (Some x)
        with Inr p that have "fst (setValue r fieldId x w1) = Inr r'" by (simp add: and_then_def)
        with builds_setValue[OF assms subset_insertI, of fieldId x] show ?thesis
          by (auto simp add: builds_def)
      qed
    qed
  qed
  with k True show ?thesis by (simp add: set_date_def builds_def)
qed

lemma creates_chain:
  assumes "builds P m" and "\<And>r. P r \<Longrightarrow> creates ty req (f r)"
  shows "creates ty req (and_then m f)"
  unfolding creates_def
proof
  fix w
  obtain x w1 where m: "m w = (x, w1)" by (cases "m w") auto
  from assms(1) m have u: "unchanged w w1" by (auto simp add: builds_def keeps_def dest: spec[of _ w])
  show "created ty req w (fst (and_then m f w)) (snd (and_then m f w))"
  proof (cases x)
    case (Inl e)
    with m u show ?thesis by (auto simp add: and_then_def created_def unchanged_def)
  next
    case (Inr r)
    with assms(1) m have "P r" by (metis builds_def fst_conv)
    from assms(2)[OF this] have "created ty req w1 (fst (f r w1)) (snd (f r w1))"
      by (simp add: creates_def)
    with u have "created ty req w (fst (f r w1)) (snd (f r w1))"
      by (auto simp add: created_def unchanged_def split: sum.splits intro: quietly_trans)
    with m Inr show ?thesis by (simp add: and_then_def)
  qed
qed

lemma creates_save:
  assumes "shaped ty req r" and "ty = ''job'' \<or> ty = ''projecttask''"
    and "title \<noteq> ''Rollback Failed''"
  shows "creates ty req (and_then (save r) (\<lambda>i. and_then (write_log LogAudit title) (\<lambda>u. returns i)))"
  using assms
  by (auto simp add: creates_def created_def quietly_def save_def and_then_def api_call_def
      write_log_def returns_def shaped_def split: option.splits)

lemma builds_if:
  "(c \<Longrightarrow> builds P a) \<Longrightarrow> (\<not> c \<Longrightarrow> builds P b) \<Longrightarrow> builds P (if c then a else b)"
  by simp

lemma creates_throws: "creates ty req (throws e)"
  by (simp add: creates_def created_def throws_def quietly_refl)

lemma set_task_fields_creates:
  assumes "shaped ''projecttask'' {(''company'', Plain (Num (int projectId)))} r0"
  shows "creates ''projecttask'' {(''company'', Plain (Num (int projectId)))} (set_task_fields r0 taskData)"
  unfolding set_task_fields_def
proof -
  let ?req = "{(''company'', Plain (Num (int projectId)))}"
  let ?P = "shaped ''projecttask'' ?req"
  have step: "builds ?P (setValue r f v)" if "?P r" for r f v
    using that by (rule builds_setValue) auto
  have text_step: "builds ?P (setText r f v)" if "?P r" for r f v
    using that by (rule builds_setText)
  have same: "builds ?P (returns r)" if "?P r" for r
    using that by (rule builds_returns)
  have safe: "builds ?P (guarded r m title)"
    if "?P r" "builds ?P m" "title \<noteq> ''Rollback Failed''" for r m title
    using that by (rule builds_guarded)
  show "creates ''projecttask'' ?req
     (and_then (setValue r0 ''title'' (Plain (js_or (t_name taskData) (Str ''Untitled Task'')))) (\<lambda>r.
      and_then (if truthy (t_plannedWork taskData)
                then setValue r ''plannedwork'' (ParsedFloat (t_plannedWork taskData))
                else returns r) (\<lambda>r.
      and_then (if truthy (t_estimatedHours taskData)
                then setValue r ''estimatedwork'' (ParsedFloat (t_estimatedHours taskData))
                else returns r) (\<lambda>r.
      and_then (if truthy (t_status taskData)
                then setValue r ''status'' (Plain (mapTaskStatus (t_status taskData)))
                else returns r) (\<lambda>r.
      and_then (if truthy (t_resource taskData)
                then guarded r (setValue r ''assignee'' (ParsedInt (t_resource taskData)))
                       ''Resource Assignment''
                else returns r) (\<lambda>r.
      and_then (if truthy (t_serviceItem taskData)
                then guarded r (setText r ''serviceitem'' (t_serviceItem taskData)) ''Service Item''
                else returns r) (\<lambda>r.
      and_then (if truthy (t_billingClass taskData)
                then guarded r (setValue r ''class'' (ParsedInt (t_billingClass taskData)))
                       ''Billing Class''
                else returns r) (\<lambda>r.
      and_then (if truthy (t_unitCost taskData)
                then guarded r (setValue r ''rate'' (ParsedFloat (t_unitCost taskData))) ''Unit Cost''
                else returns r) (\<lambda>r.
      and_then (save r) (\<lambda>taskId.
      and_then (write_log LogAudit ''Task Created'') (\<lambda>u.
      returns taskId)))))))))))"
    apply (rule creates_chain[where P = ?P], rule step[OF assms])
    apply (rule creates_chain[where P = ?P], rule builds_if, erule step, erule same)
    apply (rule creates_chain[where P = ?P], rule builds_if, erule step, erule same)
    apply (rule creates_chain[where P = ?P], rule builds_if, erule step, erule same)
    apply (rule creates_chain[where P = ?P], rule builds_if, rule safe, assumption, erule step, simp, erule same)
    apply (rule creates_chain[where P = ?P], rule builds_if, rule safe, assumption, erule text_step, simp, erule same)
    apply (rule creates_chain[where P = ?P], rule builds_if, rule safe, assumption, erule step, simp, erule same)
    apply (rule creates_chain[where P = ?P], rule builds_if, rule safe, assumption, erule step, simp, erule same)
    apply (rule creates_save, assumption, simp, simp)
    done
qed

lemma createProjectTask_creates:
  "creates ''projecttask'' {(''company'', Plain (Num (int projectId)))} (createProjectTask taskData projectId)"
  unfolding createProjectTask_def
proof (rule creates_chain[OF builds_record_create])
  let ?req = "{(''company'', Plain (Num (int projectId)))}"
  fix r0 assume "shaped ''projecttask'' {} r0"
  then have first: "builds (shaped ''projecttask'' ?req) (setValue r0 ''company'' (Plain (Num (int projectId))))"
    by (rule builds_setValue) simp
  show "creates ''projecttask'' ?req
     (and_then (setValue r0 ''company'' (Plain (Num (int projectId)))) (\<lambda>r.
        case taskData of
          None \<Rightarrow> throws (TypeError_null ''name'')
        | Some task \<Rightarrow> set_task_fields r task))"
  proof (rule creates_chain[OF first])
    fix r assume "shaped ''projecttask'' ?req r"
    then show "creates ''projecttask'' ?req
        (case taskData of None \<Rightarrow> throws (TypeError_null ''name'') | Some task \<Rightarrow> set_task_fields r task)"
      by (cases taskData) (simp_all add: creates_throws set_task_fields_creates)
  qed
qed

lemma builds_setValue_clock:
  assumes "shaped ty req r"
  shows "builds (shaped ty req) (\<lambda>w. setValue r fieldId (v w) w)"
  unfolding builds_def
proof (intro conjI allI impI)
  show "keeps (\<lambda>w. setValue r fieldId (v w) w)"
    unfolding keeps_def
  proof
    fix w
    from builds_setValue[OF assms subset_insertI, of fieldId "v w"]
    show "unchanged w (snd (setValue r fieldId (v w) w))" by (simp add: builds_def keeps_def)
  qed
next
  fix w r'
  assume "fst (setValue r fieldId (v w) w) = Inr r'"
  with builds_setValue[OF assms subset_insertI, of fieldId "v w"]
  show "shaped ty req r'" by (auto simp add: builds_def)
qed

lemma createProject_creates: "creates ''job'' {} (createProject projectData)"
  unfolding createProject_def
proof -
  let ?P = "shaped ''job'' {}"
  have step: "builds ?P (setValue r f v)" if "?P r" for r f v
    using that by (rule builds_setValue) auto
  have clock_step: "builds ?P (\<lambda>w. setValue r f (v w) w)" if "?P r" for r f v
    using that by (rule builds_setValue_clock)
  have date_step: "builds ?P (set_date r f v)" if "?P r" for r f v
    using that by (rule builds_set_date)
  have same: "builds ?P (returns r)" if "?P r" for r
    using that by (rule builds_returns)
  show "creates ''job'' {}
     (and_then (record_create ''job'') (\<lambda>r.
      and_then (\<lambda>w. setValue r ''entityid''
                  (Plain (js_or (p_entityid projectData)
                            (Str (''PROJ-'' @ show_int (script_time w))))) w) (\<lambda>r.
      and_then (setValue r ''companyname''
                  (Plain (js_or (p_name projectData) (p_entityid projectData)))) (\<lambda>r.
      and_then (setValue r ''parent'' (ParsedInt (p_customerId projectData))) (\<lambda>r.
      and_then (set_date r ''startdate'' (p_startDate projectData)) (\<lambda>r.
      and_then (set_date r ''enddate'' (p_endDate projectData)) (\<lambda>r.
      and_then (if truthy (p_status projectData)
                then setValue r ''entitystatus'' (Plain (p_status projectData))
                else returns r) (\<lambda>r.
      and_then (if truthy (p_description projectData)
                then setValue r ''comments'' (Plain (p_description projectData))
                else returns r) (\<lambda>r.
      and_then (save r) (\<lambda>projectId.
      and_then (write_log LogAudit ''Project Created'') (\<lambda>u.
      returns projectId)))))))))))"
    apply (rule creates_chain[OF builds_record_create])
    apply (rule creates_chain[where P = ?P], erule clock_step)
    apply (rule creates_chain[where P = ?P], erule step)
    apply (rule creates_chain[where P = ?P], erule step)
    apply (rule creates_chain[where P = ?P], erule date_step)
    apply (rule creates_chain[where P = ?P], erule date_step)
    apply (rule creates_chain[where P = ?P], rule builds_if, erule step, erule same)
    apply (rule creates_chain[where P = ?P], rule builds_if, erule step, erule same)
    apply (rule creates_save, assumption, simp, simp)
    done
qed

lemma rollback_outcome:
  "projecttasks (snd (rollback projectId w)) = projecttasks w
   \<and> next_id (snd (rollback projectId w)) = next_id w
   \<and> (\<exists>es cs. execution_log (snd (rollback projectId w)) = execution_log w @ es
          \<and> api_trace (snd (rollback projectId w)) = api_trace w @ cs
          \<and> (((LogError, ''Rollback Failed'') \<in> set es \<and> delete_failed_in cs projectId
               \<and> jobs (snd (rollback projectId w)) = jobs w)
              \<or> ((LogError, ''Rollback Failed'') \<notin> set es \<and> \<not> delete_failed_in cs projectId
                  \<and> jobs (snd (rollback projectId w)) = (jobs w)(projectId := None))))"
  by (cases "faults w (api_calls w)")
     (simp_all add: rollback_def catching_def and_then_def record_delete_def api_call_def write_log_def
        delete_failed_in_def)

lemma createProjectTask_outcome:
  "created ''projecttask'' {(''company'', Plain (Num (int projectId)))} w
     (fst (createProjectTask taskData projectId w)) (snd (createProjectTask taskData projectId w))"
  using createProjectTask_creates[of projectId taskData] by (simp add: creates_def)

lemma create_tasks_failure:
  "create_tasks ts i projectId cr w = (Some e, cr', w') \<Longrightarrow> None \<notin> set ts
   \<Longrightarrow> e_name e = ''TASK_CREATE_FAILED''
     \<and> (\<exists>es cs. execution_log w' = execution_log w @ es \<and> api_trace w' = api_trace w @ cs
            \<and> (((LogError, ''Rollback Failed'') \<in> set es \<and> delete_failed_in cs projectId
                 \<and> jobs w' = jobs w)
                \<or> ((LogError, ''Rollback Failed'') \<notin> set es \<and> \<not> delete_failed_in cs projectId
                    \<and> jobs w' = (jobs w)(projectId := None))))"
proof (induction ts arbitrary: i cr w)
  case Nil
  then show ?case by simp
next
  case (Cons task rest)
  obtain r w1 where t: "createProjectTask task projectId w = (r, w1)"
    by (cases "createProjectTask task projectId w") auto
  from createProjectTask_outcome[of projectId w task] t
  have c: "created ''projecttask'' {(''company'', Plain (Num (int projectId)))} w r w1" by simp
  then have "quietly w w1" and j1: "jobs w1 = jobs w"
    by (auto simp add: created_def split: sum.splits)
  from quietly_append[OF this(1)] obtain es1 cs1 where es1: "execution_log w1 = execution_log w @ es1"
      "(LogError, ''Rollback Failed'') \<notin> set es1"
    and cs1: "api_trace w1 = api_trace w @ cs1" "\<not> list_ex (\<lambda>c. is_delete (fst c)) cs1"
    by blast
  from cs1(2) have nd1: "\<not> delete_failed_in cs1 projectId" by (rule no_delete_no_failure)
  show ?case
  proof (cases r)
    case (Inr taskId)
    with t Cons.prems have "create_tasks rest (Suc i) projectId (cr @ [taskId]) w1 = (Some e, cr', w')"
      by simp
    moreover have "None \<notin> set rest" using Cons.prems(2) by simp
    ultimately have ih0: "e_name e = ''TASK_CREATE_FAILED''
     \<and> (\<exists>es cs. execution_log w' = execution_log w1 @ es \<and> api_trace w' = api_trace w1 @ cs
            \<and> (((LogError, ''Rollback Failed'') \<in> set es \<and> delete_failed_in cs projectId
                 \<and> jobs w' = jobs w1)
                \<or> ((LogError, ''Rollback Failed'') \<notin> set es \<and> \<not> delete_failed_in cs projectId
                    \<and> jobs w' = (jobs w1)(projectId := None))))"
      by (rule Cons.IH)
    then obtain es cs where ih:
      "e_name e = ''TASK_CREATE_FAILED''"
      "execution_log w' = execution_log w1 @ es" "api_trace w' = api_trace w1 @ cs"
      "((LogError, ''Rollback Failed'') \<in> set es \<and> delete_failed_in cs projectId \<and> jobs w' = jobs w1)
       \<or> ((LogError, ''Rollback Failed'') \<notin> set es \<and> \<not> delete_failed_in cs projectId
           \<and> jobs w' = (jobs w1)(projectId := None))"
      by blast
    have "execution_log w' = execution_log w @ (es1 @ es) \<and> api_trace w' = api_trace w @ (cs1 @ cs)
        \<and> (((LogError, ''Rollback Failed'') \<in> set (es1 @ es) \<and> delete_failed_in (cs1 @ cs) projectId
              \<and> jobs w' = jobs w)
            \<or> ((LogError, ''Rollback Failed'') \<notin> set (es1 @ es)
                \<and> \<not> delete_failed_in (cs1 @ cs) projectId
                \<and> jobs w' = (jobs w)(projectId := None)))"
      using ih(2,3,4) es1 cs1(1) nd1 j1 by (auto simp add: delete_failed_in_append)
    with ih(1) show ?thesis by blast
  next
    case (Inl taskError)
    let ?w2 = "snd (write_log LogError ''Task Creation Failed'' w1)"
    from Cons.prems(2) obtain taskObject where task: "task = Some taskObject" by (cases task) auto
    from Inl t task Cons.prems(1) have e: "e = error_create ''TASK_CREATE_FAILED''
          (task_failed_message taskObject i taskError projectId)"
      and w': "w' = snd (rollback projectId ?w2)"
      by (simp_all add: Let_def)
    have l2: "execution_log ?w2 = execution_log w @ es1 @ [(LogError, ''Task Creation Failed'')]"
      and j2: "jobs ?w2 = jobs w"
      and t2: "api_trace ?w2 = api_trace w @ cs1"
      using es1 j1 cs1(1) by (simp_all add: write_log_def)
    from rollback_outcome[of projectId ?w2] w' obtain es cs where
      "execution_log w' = execution_log ?w2 @ es" "api_trace w' = api_trace ?w2 @ cs"
      "((LogError, ''Rollback Failed'') \<in> set es \<and> delete_failed_in cs projectId \<and> jobs w' = jobs ?w2)
       \<or> ((LogError, ''Rollback Failed'') \<notin> set es \<and> \<not> delete_failed_in cs projectId
           \<and> jobs w' = (jobs ?w2)(projectId := None))"
      by blast
    with l2 j2 t2 es1(2) nd1
    have "execution_log w' = execution_log w @ (es1 @ [(LogError, ''Task Creation Failed'')] @ es)
        \<and> api_trace w' = api_trace w @ (cs1 @ cs)
        \<and> (((LogError, ''Rollback Failed'') \<in> set (es1 @ [(LogError, ''Task Creation Failed'')] @ es)
              \<and> delete_failed_in (cs1 @ cs) projectId \<and> jobs w' = jobs w)
            \<or> ((LogError, ''Rollback Failed'') \<notin> set (es1 @ [(LogError, ''Task Creation Failed'')] @ es)
                \<and> \<not> delete_failed_in (cs1 @ cs) projectId
                \<and> jobs w' = (jobs w)(projectId := None)))"
      by (auto simp add: delete_failed_in_append)
    moreover have "e_name e = ''TASK_CREATE_FAILED''" using e by (simp add: error_create_def)
    ultimately show ?thesis by blast
  qed
qed

lemma create_tasks_success:
  "create_tasks ts i projectId cr w = (None, cr', w')
   \<Longrightarrow> jobs w' = jobs w
     \<and> quietly w w'
     \<and> cr' = cr @ [next_id w ..< next_id w + length ts]
     \<and> next_id w' = next_id w + length ts
     \<and> (\<forall>t. t < next_id w \<longrightarrow> projecttasks w' t = projecttasks w t)
     \<and> (\<forall>t. next_id w \<le> t \<and> t < next_id w + length ts \<longrightarrow> task_of w' projectId t)"
proof (induction ts arbitrary: i cr w)
  case Nil
  then show ?case by (auto simp add: quietly_refl)
next
  case (Cons task rest)
  obtain r w1 where t: "createProjectTask task projectId w = (r, w1)"
    by (cases "createProjectTask task projectId w") auto
  from createProjectTask_outcome[of projectId w task] t
  have c: "created ''projecttask'' {(''company'', Plain (Num (int projectId)))} w r w1" by simp
  from t Cons.prems obtain taskId where r: "r = Inr taskId"
    by (cases r) (auto simp add: Let_def split: option.splits)
  with t Cons.prems have rest: "create_tasks rest (Suc i) projectId (cr @ [taskId]) w1 = (None, cr', w')"
    by simp
  from c r obtain fs where q1: "quietly w w1"
    and id: "taskId = next_id w" "next_id w1 = Suc (next_id w)"
    and fs: "(''company'', Plain (Num (int projectId))) \<in> set fs"
      "projecttasks w1 = (projecttasks w)(taskId \<mapsto> fs)" "jobs w1 = jobs w"
    by (auto simp add: created_def)
  from Cons.IH[OF rest] have ih:
    "jobs w' = jobs w1"
    "quietly w1 w'"
    "cr' = (cr @ [taskId]) @ [next_id w1 ..< next_id w1 + length rest]"
    "next_id w' = next_id w1 + length rest"
    "\<And>t. t < next_id w1 \<Longrightarrow> projecttasks w' t = projecttasks w1 t"
    "\<And>t. next_id w1 \<le> t \<Longrightarrow> t < next_id w1 + length rest \<Longrightarrow> task_of w' projectId t"
    by blast+
  have a: "jobs w' = jobs w" using ih(1) fs(3) by simp
  have b: "quietly w w'" using q1 ih(2) by (rule quietly_trans)
  have "[next_id w ..< next_id w + length (task # rest)]
      = next_id w # [Suc (next_id w) ..< Suc (next_id w) + length rest]"
    by (subst upt_conv_Cons) simp_all
  with ih(3) id have c': "cr' = cr @ [next_id w ..< next_id w + length (task # rest)]"
    by simp
  have d: "next_id w' = next_id w + length (task # rest)" using ih(4) id by simp
  have e: "projecttasks w' t = projecttasks w t" if "t < next_id w" for t
    using ih(5)[of t] that id fs(2) by simp
  have f: "task_of w' projectId t" if "next_id w \<le> t" "t < next_id w + length (task # rest)" for t
  proof (cases "t = next_id w")
    case True
    with ih(5)[of t] id fs show ?thesis by (simp add: task_of_def)
  next
    case False
    with that id ih(6)[of t] show ?thesis by simp
  qed
  from a b c' d e f show ?case by blast
qed

subsection \<open>The handler\<close>

lemma logged_since_append:
  "execution_log w' = execution_log w @ es \<Longrightarrow> logged_since w w' = es"
  by (simp add: logged_since_def)

lemma post_without_project:
  assumes "rb_project requestBody = None
           \<or> (\<exists>p. rb_project requestBody = Some p \<and> \<not> truthy (p_customerId p))"
  shows "\<exists>f. fst (post requestBody w) = Failed f \<and> f_projectId (f_details f) = None"
    and "jobs (snd (post requestBody w)) = jobs w"
    and "logged_since w (snd (post requestBody w)) = [(LogError, ''Composite Create Failed'')]"
  using assms
  by (auto simp add: post_def failure_response_def write_log_def logged_since_def)

lemma post_with_project:
  assumes "rb_project requestBody = Some p" and "truthy (p_customerId p)"
  shows "post requestBody w =
     (let w1 = snd (write_log LogAudit ''Starting Composite Create'' w) in
      case createProject p w1 of
        (Inl e, w2) \<Rightarrow> failure_response requestBody None [] e w2
      | (Inr projectId, w2) \<Rightarrow>
          (case create_tasks (requested_tasks requestBody) 0 projectId [] w2 of
             (Some e, createdTaskIds, w3) \<Rightarrow>
               failure_response requestBody (Some projectId) createdTaskIds e w3
           | (None, createdTaskIds, w3) \<Rightarrow>
               (Succeeded \<lparr>s_projectId = projectId, s_taskIds = createdTaskIds,
                           s_taskCount = length createdTaskIds,
                           s_entityid = p_entityid p\<rparr>, w3)))"
  using assms by (simp add: post_def)

lemma calls_since_append:
  "api_trace w' = api_trace w @ cs \<Longrightarrow> calls_since w w' = cs"
  by (simp add: calls_since_def)

text \<open>The outcomes of the handler on a request whose tasks are objects, one by one.\<close>

lemma post_outcomes:
  assumes objects: "None \<notin> set (requested_tasks requestBody)"
  shows "(\<exists>f. fst (post requestBody w) = Failed f \<and> f_projectId (f_details f) = None
        \<and> jobs (snd (post requestBody w)) = jobs w
        \<and> \<not> rollback_failed w (snd (post requestBody w)))
   \<or> (\<exists>f i. fst (post requestBody w) = Failed f \<and> f_projectId (f_details f) = Some i
        \<and> f_code f = ''TASK_CREATE_FAILED''
        \<and> jobs (snd (post requestBody w)) = (jobs w)(i := None)
        \<and> \<not> rollback_failed w (snd (post requestBody w))
        \<and> \<not> delete_failed w (snd (post requestBody w)) i)
   \<or> (\<exists>f i fs. fst (post requestBody w) = Failed f \<and> f_projectId (f_details f) = Some i
        \<and> f_code f = ''TASK_CREATE_FAILED''
        \<and> jobs (snd (post requestBody w)) = (jobs w)(i \<mapsto> fs)
        \<and> rollback_failed w (snd (post requestBody w))
        \<and> delete_failed w (snd (post requestBody w)) i)
   \<or> (\<exists>d fs. fst (post requestBody w) = Succeeded d
        \<and> jobs (snd (post requestBody w)) = (jobs w)(s_projectId d \<mapsto> fs)
        \<and> \<not> rollback_failed w (snd (post requestBody w))
        \<and> \<not> delete_failed w (snd (post requestBody w)) (s_projectId d)
        \<and> s_taskCount d = length (requested_tasks requestBody)
        \<and> length (s_taskIds d) = length (requested_tasks requestBody)
        \<and> distinct (s_taskIds d)
        \<and> (\<forall>t. t \<in> set (s_taskIds d) \<longrightarrow> task_of (snd (post requestBody w)) (s_projectId d) t))"
proof (cases "rb_project requestBody = None
           \<or> (\<exists>p. rb_project requestBody = Some p \<and> \<not> truthy (p_customerId p))")
  case True
  from post_without_project[OF True, of w] show ?thesis
    by (auto simp add: rollback_failed_def)
next
  case False
  then obtain p where p: "rb_project requestBody = Some p" "truthy (p_customerId p)" by auto
  let ?w1 = "snd (write_log LogAudit ''Starting Composite Create'' w)"
  have l1: "execution_log ?w1 = execution_log w @ [(LogAudit, ''Starting Composite Create'')]"
    and j1: "jobs ?w1 = jobs w"
    and t1: "api_trace ?w1 = api_trace w"
    by (simp_all add: write_log_def)
  obtain r w2 where cp: "createProject p ?w1 = (r, w2)" by (cases "createProject p ?w1") auto
  from createProject_creates[of p] cp have c: "created ''job'' {} ?w1 r w2"
    by (auto simp add: creates_def dest: spec[of _ ?w1])
  then have "quietly ?w1 w2" by (simp add: created_def)
  from quietly_append[OF this] obtain es1 cs1 where es1: "execution_log w2 = execution_log ?w1 @ es1"
      "(LogError, ''Rollback Failed'') \<notin> set es1"
    and cs1: "api_trace w2 = api_trace ?w1 @ cs1" "\<not> list_ex (\<lambda>c. is_delete (fst c)) cs1"
    by blast
  show ?thesis
  proof (cases r)
    case (Inl e)
    with c j1 have j2: "jobs w2 = jobs w" by (simp add: created_def)
    from Inl cp post_with_project[OF p, of w]
    have post: "post requestBody w = failure_response requestBody None [] e w2"
      by (simp add: Let_def)
    have "execution_log (snd (post requestBody w))
        = execution_log w @ ([(LogAudit, ''Starting Composite Create'')] @ es1
            @ [(LogError, ''Composite Create Failed'')])"
      using post es1 l1 by (simp add: failure_response_def write_log_def)
    from logged_since_append[OF this] es1(2)
    have "\<not> rollback_failed w (snd (post requestBody w))"
      by (simp add: rollback_failed_def)
    moreover have "jobs (snd (post requestBody w)) = jobs w"
      using post j2 by (simp add: failure_response_def write_log_def)
    moreover have "\<exists>f. fst (post requestBody w) = Failed f \<and> f_projectId (f_details f) = None"
      using post by (simp add: failure_response_def)
    ultimately show ?thesis by blast
  next
    case (Inr projectId)
    with c j1 obtain fs where j2: "jobs w2 = (jobs w)(projectId \<mapsto> fs)"
      by (auto simp add: created_def)
    obtain res cr w3 where ct: "create_tasks (requested_tasks requestBody) 0 projectId [] w2 = (res, cr, w3)"
      by (cases "create_tasks (requested_tasks requestBody) 0 projectId [] w2") auto
    show ?thesis
    proof (cases res)
      case None
      from Inr cp ct None post_with_project[OF p, of w]
      have post: "post requestBody w
          = (Succeeded \<lparr>s_projectId = projectId, s_taskIds = cr, s_taskCount = length cr,
                        s_entityid = p_entityid p\<rparr>, w3)"
        by (simp add: Let_def)
      from create_tasks_success[OF ct[unfolded None]] have ok:
        "jobs w3 = jobs w2"
        "quietly w2 w3"
        "cr = [] @ [next_id w2 ..< next_id w2 + length (requested_tasks requestBody)]"
        "\<And>t. next_id w2 \<le> t \<Longrightarrow> t < next_id w2 + length (requested_tasks requestBody)
             \<Longrightarrow> task_of w3 projectId t"
        by blast+
      from quietly_append[OF ok(2)] obtain es2 cs2 where es2: "execution_log w3 = execution_log w2 @ es2"
          "(LogError, ''Rollback Failed'') \<notin> set es2"
        and cs2: "api_trace w3 = api_trace w2 @ cs2" "\<not> list_ex (\<lambda>c. is_delete (fst c)) cs2"
        by blast
      have "execution_log w3
          = execution_log w @ ([(LogAudit, ''Starting Composite Create'')] @ es1 @ es2)"
        using es2(1) es1 l1 by simp
      from logged_since_append[OF this] es1(2) es2(2)
      have "\<not> rollback_failed w w3" by (simp add: rollback_failed_def)
      moreover have "api_trace w3 = api_trace w @ (cs1 @ cs2)" using cs2(1) cs1(1) t1 by simp
      from calls_since_append[OF this] cs1(2) cs2(2)
      have "\<not> delete_failed w w3 projectId"
        by (simp add: delete_failed_def delete_failed_in_append no_delete_no_failure)
      moreover have "jobs w3 = (jobs w)(projectId \<mapsto> fs)" using ok(1) j2 by simp
      moreover have "length cr = length (requested_tasks requestBody)" "distinct cr"
        using ok(3) by simp_all
      moreover have "\<forall>t. t \<in> set cr \<longrightarrow> task_of w3 projectId t"
        using ok(3,4) by auto
      ultimately have "\<exists>d fs. fst (post requestBody w) = Succeeded d
          \<and> jobs (snd (post requestBody w)) = (jobs w)(s_projectId d \<mapsto> fs)
          \<and> \<not> rollback_failed w (snd (post requestBody w))
          \<and> \<not> delete_failed w (snd (post requestBody w)) (s_projectId d)
          \<and> s_taskCount d = length (requested_tasks requestBody)
          \<and> length (s_taskIds d) = length (requested_tasks requestBody)
          \<and> distinct (s_taskIds d)
          \<and> (\<forall>t. t \<in> set (s_taskIds d) \<longrightarrow> task_of (snd (post requestBody w)) (s_projectId d) t)"
        using post
        by (intro exI[of _ "\<lparr>s_projectId = projectId, s_taskIds = cr, s_taskCount = length cr,
                        s_entityid = p_entityid p\<rparr>"] exI[of _ fs]) simp
      then show ?thesis by blast
    next
      case (Some e)
      from Inr cp ct Some post_with_project[OF p, of w]
      have post: "post requestBody w = failure_response requestBody (Some projectId) cr e w3"
        by (simp add: Let_def)
      from create_tasks_failure[OF ct[unfolded Some] objects] obtain es2 cs2 where bad:
        "e_name e = ''TASK_CREATE_FAILED''"
        "execution_log w3 = execution_log w2 @ es2" "api_trace w3 = api_trace w2 @ cs2"
        "((LogError, ''Rollback Failed'') \<in> set es2 \<and> delete_failed_in cs2 projectId \<and> jobs w3 = jobs w2)
         \<or> ((LogError, ''Rollback Failed'') \<notin> set es2 \<and> \<not> delete_failed_in cs2 projectId
             \<and> jobs w3 = (jobs w2)(projectId := None))"
        by blast
      have "execution_log (snd (post requestBody w))
          = execution_log w @ ([(LogAudit, ''Starting Composite Create'')] @ es1 @ es2
              @ [(LogError, ''Composite Create Failed'')])"
        using post bad(2) es1 l1 by (simp add: failure_response_def write_log_def)
      from logged_since_append[OF this] es1(2)
      have rf: "rollback_failed w (snd (post requestBody w)) = ((LogError, ''Rollback Failed'') \<in> set es2)"
        by (simp add: rollback_failed_def)
      have "api_trace (snd (post requestBody w)) = api_trace w @ (cs1 @ cs2)"
        using post bad(3) cs1(1) t1 by (simp add: failure_response_def write_log_def)
      from calls_since_append[OF this] cs1(2)
      have df: "delete_failed w (snd (post requestBody w)) projectId = delete_failed_in cs2 projectId"
        by (simp add: delete_failed_def delete_failed_in_append no_delete_no_failure)
      have jobs': "jobs (snd (post requestBody w)) = jobs w3"
        using post by (simp add: failure_response_def write_log_def)
      have resp: "\<exists>f. fst (post requestBody w) = Failed f \<and> f_projectId (f_details f) = Some projectId
          \<and> f_code f = ''TASK_CREATE_FAILED''"
        using post bad(1) by (simp add: failure_response_def)
      from bad(4) show ?thesis
      proof
        assume "(LogError, ''Rollback Failed'') \<in> set es2 \<and> delete_failed_in cs2 projectId
          \<and> jobs w3 = jobs w2"
        with rf df jobs' j2 resp show ?thesis by auto
      next
        assume "(LogError, ''Rollback Failed'') \<notin> set es2 \<and> \<not> delete_failed_in cs2 projectId
          \<and> jobs w3 = (jobs w2)(projectId := None)"
        with rf df jobs' j2 resp show ?thesis by auto
      qed
    qed
  qed
qed

text \<open>
  When every requested task is an object, whatever platform call fails: after the call the
  project the call created is in the account exactly when the call succeeded or the
  platform threw on the compensating \<^verbatim>\<open>record.delete\<close> of that project, and the script logs
  a failed rollback exactly then. When the project is there and its delete did not fail,
  the response is the success response, and it carries one task id per requested task, all
  distinct, each the id of a task record of that project in the account. No other project
  record is touched.
\<close>

lemma all_or_nothing_for_task_objects:
  assumes "None \<notin> set (requested_tasks requestBody)"
  shows "parent_exists (fst (post requestBody w)) (snd (post requestBody w))
           = (succeeded (fst (post requestBody w))
              \<or> compensation_failed (fst (post requestBody w)) w (snd (post requestBody w)))
       \<and> rollback_failed w (snd (post requestBody w))
           = compensation_failed (fst (post requestBody w)) w (snd (post requestBody w))
       \<and> (parent_exists (fst (post requestBody w)) (snd (post requestBody w))
            \<and> \<not> compensation_failed (fst (post requestBody w)) w (snd (post requestBody w))
          \<longrightarrow> (\<exists>d. fst (post requestBody w) = Succeeded d
                 \<and> s_taskCount d = length (requested_tasks requestBody)
                 \<and> length (s_taskIds d) = length (requested_tasks requestBody)
                 \<and> distinct (s_taskIds d)
                 \<and> (\<forall>t. t \<in> set (s_taskIds d)
                        \<longrightarrow> task_of (snd (post requestBody w)) (s_projectId d) t)))
       \<and> (\<forall>i. parent_of (fst (post requestBody w)) \<noteq> Some i
             \<longrightarrow> jobs (snd (post requestBody w)) i = jobs w i)"
  using post_outcomes[OF assms, of w]
proof (elim disjE exE conjE)
  fix f
  assume "fst (post requestBody w) = Failed f" "f_projectId (f_details f) = None"
    "jobs (snd (post requestBody w)) = jobs w" "\<not> rollback_failed w (snd (post requestBody w))"
  then show ?thesis
    by (simp add: parent_exists_def parent_of_def succeeded_def compensation_failed_def)
next
  fix f i
  assume "fst (post requestBody w) = Failed f" "f_projectId (f_details f) = Some i"
    "jobs (snd (post requestBody w)) = (jobs w)(i := None)"
    "\<not> rollback_failed w (snd (post requestBody w))"
    "\<not> delete_failed w (snd (post requestBody w)) i"
  then show ?thesis
    by (simp add: parent_exists_def parent_of_def succeeded_def compensation_failed_def)
next
  fix f i fs
  assume "fst (post requestBody w) = Failed f" "f_projectId (f_details f) = Some i"
    "jobs (snd (post requestBody w)) = (jobs w)(i \<mapsto> fs)"
    "rollback_failed w (snd (post requestBody w))"
    "delete_failed w (snd (post requestBody w)) i"
  then show ?thesis
    by (simp add: parent_exists_def parent_of_def succeeded_def compensation_failed_def)
next
  fix d fs
  assume "fst (post requestBody w) = Succeeded d"
    "jobs (snd (post requestBody w)) = (jobs w)(s_projectId d \<mapsto> fs)"
    "\<not> rollback_failed w (snd (post requestBody w))"
    "\<not> delete_failed w (snd (post requestBody w)) (s_projectId d)"
    "s_taskCount d = length (requested_tasks requestBody)"
    "length (s_taskIds d) = length (requested_tasks requestBody)"
    "distinct (s_taskIds d)"
    "\<forall>t. t \<in> set (s_taskIds d) \<longrightarrow> task_of (snd (post requestBody w)) (s_projectId d) t"
  then show ?thesis
    by (simp add: parent_exists_def parent_of_def succeeded_def compensation_failed_def)
qed

lemmas script_defs =
  post_def failure_response_def requested_tasks_def createProject_def createProjectTask_def
  set_task_fields_def set_date_def parseDate_def guarded_def rollback_def
  and_then_def catching_def returns_def throws_def api_call_def record_create_def setValue_def
  setText_def save_def record_delete_def format_parse_def write_log_def error_create_def
  task_failed_message_def js_or_def Let_def

lemma post_one_task_no_faults:
  "fst (post one_task_request (account no_faults))
     = Succeeded \<lparr>s_projectId = 1, s_taskIds = [2], s_taskCount = 1, s_entityid = Str ''PRJ-1''\<rparr>"
  "execution_log (snd (post one_task_request (account no_faults)))
     = [(LogAudit, ''Starting Composite Create''), (LogAudit, ''Project Created''),
        (LogAudit, ''Task Created'')]"
  by (simp_all add: script_defs one_task_request_def website_project_def design_task_def
      account_def no_faults_def)

text \<open>
  The request of one task on an account without failures, and on the account in which the
  save of the task and the delete of the project both throw.
\<close>

lemma all_or_nothing_examples:
  "None \<notin> set (requested_tasks one_task_request)
   \<and> succeeded (fst (post one_task_request (account no_faults)))
   \<and> parent_exists (fst (post one_task_request (account no_faults)))
        (snd (post one_task_request (account no_faults)))
   \<and> \<not> succeeded (fst (post one_task_request (account task_save_and_delete_fail)))
   \<and> compensation_failed (fst (post one_task_request (account task_save_and_delete_fail)))
        (account task_save_and_delete_fail)
        (snd (post one_task_request (account task_save_and_delete_fail)))
   \<and> parent_exists (fst (post one_task_request (account task_save_and_delete_fail)))
        (snd (post one_task_request (account task_save_and_delete_fail)))"
proof -
  have objects: "None \<notin> set (requested_tasks one_task_request)"
    by (simp add: requested_tasks_def one_task_request_def)
  have ok: "succeeded (fst (post one_task_request (account no_faults)))"
    by (simp add: post_one_task_no_faults succeeded_def)
  have failed: "\<not> succeeded (fst (post one_task_request (account task_save_and_delete_fail)))"
    "compensation_failed (fst (post one_task_request (account task_save_and_delete_fail)))
        (account task_save_and_delete_fail)
        (snd (post one_task_request (account task_save_and_delete_fail)))"
    by (simp_all add: script_defs one_task_request_def website_project_def design_task_def
        account_def task_save_and_delete_fail_def succeeded_def compensation_failed_def
        parent_of_def delete_failed_def delete_failed_in_def calls_since_def
        show_nat.simps digit_char_def)
  from all_or_nothing_for_task_objects[OF objects, of "account no_faults"] ok
  have "parent_exists (fst (post one_task_request (account no_faults)))
        (snd (post one_task_request (account no_faults)))"
    by simp
  moreover from all_or_nothing_for_task_objects[OF objects, of "account task_save_and_delete_fail"]
    failed(2)
  have "parent_exists (fst (post one_task_request (account task_save_and_delete_fail)))
        (snd (post one_task_request (account task_save_and_delete_fail)))"
    by simp
  ultimately show ?thesis using objects ok failed by simp
qed

text \<open>
  C2. The claim: when a task fails and the compensating delete fails too, the returned
  error additionally flags that the project was not removed. The response is built after
  the inner \<^verbatim>\<open>try\<close>/\<^verbatim>\<open>catch\<close> from the task's error alone; the failed delete is only
  logged. For the same request, the account in which the delete fails and the account in
  which it succeeds return the same response, whose message says that the project has
  been rolled back; in the first the project is still in the account.
\<close>

theorem rollback_failure_not_reported:
  "fst (post one_task_request (account task_save_and_delete_fail))
     = Failed \<lparr>f_code = ''TASK_CREATE_FAILED'',
               f_message = ''Failed to create task '' @ [CHR 0x22] @ ''Design'' @ [CHR 0x22]
                 @ '' (index 0): Invalid title. Project 1 has been rolled back.'',
               f_details = \<lparr>f_projectId = Some 1, partialTasksCreated = 0, totalTasksRequested = 1\<rparr>\<rparr>
   \<and> fst (post one_task_request (account task_save_and_delete_fail))
       = fst (post one_task_request (account task_save_fails))
   \<and> rollback_failed (account task_save_and_delete_fail)
        (snd (post one_task_request (account task_save_and_delete_fail)))
   \<and> jobs (snd (post one_task_request (account task_save_and_delete_fail))) 1 \<noteq> None
   \<and> \<not> rollback_failed (account task_save_fails) (snd (post one_task_request (account task_save_fails)))
   \<and> jobs (snd (post one_task_request (account task_save_fails))) 1 = None"
  by (simp add: script_defs one_task_request_def website_project_def design_task_def account_def
      task_save_and_delete_fail_def task_save_fails_def rollback_failed_def logged_since_def
      show_nat.simps digit_char_def)

text \<open>
  C1. The claim: for every request, after the call the project exists in the account if and
  only if the whole operation succeeded or the compensating delete of the project failed;
  the project never remains with only a part of its requested tasks. The handler takes the
  task list as it comes. For the request with tasks \<^verbatim>\<open>[{name: 'Design'}, null]\<close> on an account
  in which no platform call fails: the first task is created; \<^verbatim>\<open>createProjectTask(null, 1)\<close>
  throws a TypeError at \<^verbatim>\<open>taskData.name\<close>; the \<^verbatim>\<open>catch\<close> of the loop logs \<^verbatim>\<open>task.name\<close> first,
  which throws again, so that the \<^verbatim>\<open>record.delete\<close> below it is never reached. The call
  fails, no delete of the project was made, none failed, no failed rollback is logged, and
  the project is in the account with one of its two requested tasks.
\<close>

theorem null_task_leaves_partial_project:
  "fst (post partial_request (account no_faults))
     = Failed \<lparr>f_code = ''TypeError'',
               f_message = ''Cannot read properties of null (reading '' @ [CHR 0x27] @ ''name''
                 @ [CHR 0x27] @ '')'',
               f_details = \<lparr>f_projectId = Some 1, partialTasksCreated = 1, totalTasksRequested = 2\<rparr>\<rparr>
   \<and> parent_exists (fst (post partial_request (account no_faults)))
        (snd (post partial_request (account no_faults)))
   \<and> task_of (snd (post partial_request (account no_faults))) 1 2
   \<and> projecttasks (snd (post partial_request (account no_faults))) 3 = None
   \<and> \<not> succeeded (fst (post partial_request (account no_faults)))
   \<and> \<not> delete_attempted (account no_faults) (snd (post partial_request (account no_faults))) 1
   \<and> \<not> compensation_failed (fst (post partial_request (account no_faults))) (account no_faults)
        (snd (post partial_request (account no_faults)))
   \<and> \<not> rollback_failed (account no_faults) (snd (post partial_request (account no_faults)))"
  by (simp add: script_defs partial_request_def website_project_def design_task_def account_def
      no_faults_def TypeError_null_def rollback_failed_def logged_since_def parent_exists_def
      parent_of_def task_of_def succeeded_def delete_attempted_def compensation_failed_def
      delete_failed_def delete_failed_in_def calls_since_def)

end
